theory Spec2Isabelle
  imports Main "HOL-Library.Sublist" "HOL-Library.AList"
begin

section \<open>JavaScript strings\<close>

text \<open>
  A JavaScript string is a sequence of UTF-16 code units.  The model uses \<^typ>\<open>string\<close>,
  whose characters are the code units \<open>0x00\<close> to \<open>0xFF\<close> (ASCII and Latin-1); texts with
  code units above \<open>0xFF\<close> are outside the model.  Every concrete input below is ASCII.
  Character classes are given by their members, or by the bits of the code unit
  (\<open>digit0\<close> is the lowest bit, \<open>digit7\<close> the highest).
\<close>

definition code_unit :: "char \<Rightarrow> nat" where
  "code_unit c = of_char c"

definition oneOf :: "string \<Rightarrow> char \<Rightarrow> bool" where
  "oneOf w c = (c \<in> set w)"

text \<open>White space and line terminators of ECMAScript (\<open>\s\<close> of a regular expression, and what
  \<open>trim\<close> removes) among the code units below \<open>0x100\<close>: TAB, LF, VT, FF, CR, SP, NBSP.\<close>

definition is_ws :: "char \<Rightarrow> bool" where
  "is_ws c = oneOf [CHR 0x09, CHR 0x0A, CHR 0x0B, CHR 0x0C, CHR 0x0D, CHR 0x20, CHR 0xA0] c"

text \<open>\<open>String.prototype.toLowerCase\<close>, code unit by code unit: \<open>A-Z\<close> and the Latin-1 capitals
  \<open>0xC0-0xDE\<close> (the code units \<open>110xxxxx\<close> but for the multiplication sign \<open>0xD7\<close> and the
  sharp s \<open>0xDF\<close>) move up by \<open>0x20\<close>, which sets the bit \<open>digit5\<close>.\<close>

definition is_upper :: "char \<Rightarrow> bool" where
  "is_upper c =
     (oneOf ''ABCDEFGHIJKLMNOPQRSTUVWXYZ'' c
      \<or> (digit7 c \<and> digit6 c \<and> \<not> digit5 c \<and> c \<noteq> CHR 0xD7 \<and> c \<noteq> CHR 0xDF))"

definition lower_char :: "char \<Rightarrow> char" where
  "lower_char c =
     (if is_upper c
      then Char (digit0 c) (digit1 c) (digit2 c) (digit3 c) (digit4 c) True (digit6 c) (digit7 c)
      else c)"

definition toLowerCase :: "string \<Rightarrow> string" where
  "toLowerCase s = map lower_char s"

definition trimStart :: "string \<Rightarrow> string" where
  "trimStart s = dropWhile is_ws s"

definition trimEnd :: "string \<Rightarrow> string" where
  "trimEnd s = rev (dropWhile is_ws (rev s))"

definition trim :: "string \<Rightarrow> string" where
  "trim s = trimEnd (trimStart s)"

text \<open>\<open>s.slice(a, b)\<close> for \<open>0 \<le> a\<close> and \<open>0 \<le> b\<close>.\<close>

definition slice :: "string \<Rightarrow> nat \<Rightarrow> nat \<Rightarrow> string" where
  "slice s a b = take (b - a) (drop a s)"

text \<open>\<open>text.indexOf(key)\<close>: the least position at which \<open>key\<close> starts, \<open>None\<close> for \<open>-1\<close>.\<close>

fun indexOf :: "string \<Rightarrow> string \<Rightarrow> nat option" where
  "indexOf [] key = (if key = [] then Some 0 else None)"
| "indexOf (c # cs) key =
     (if prefix key (c # cs) then Some 0 else map_option Suc (indexOf cs key))"

text \<open>\<open>text.indexOf(key, from)\<close> for \<open>from \<le> text.length\<close>.\<close>

definition indexOfFrom :: "string \<Rightarrow> string \<Rightarrow> nat \<Rightarrow> nat option" where
  "indexOfFrom text key from = map_option (\<lambda>i. i + from) (indexOf (drop from text) key)"

text \<open>\<open>text.lastIndexOf(key, from)\<close>: the search runs downwards from
  \<open>min(from, text.length - key.length)\<close>.\<close>

fun searchDown :: "string \<Rightarrow> string \<Rightarrow> nat \<Rightarrow> nat option" where
  "searchDown text key 0 = (if prefix key text then Some 0 else None)"
| "searchDown text key (Suc k) =
     (if prefix key (drop (Suc k) text) then Some (Suc k) else searchDown text key k)"

definition lastIndexOf :: "string \<Rightarrow> string \<Rightarrow> nat \<Rightarrow> nat option" where
  "lastIndexOf text key from =
     (if length text < length key then None
      else searchDown text key (min from (length text - length key)))"

definition includesStr :: "string \<Rightarrow> string \<Rightarrow> bool" where
  "includesStr text key = (indexOf text key \<noteq> None)"

section \<open>The token mapper\<close>

text \<open>
  \<open>mapToken\<close> of \<open>parseEquipmentAlert\<close> (Header.tsx, lines 137-147).  The argument is a string at
  every call site.  \<open>raw.replace(/_/g, ' ')\<close> replaces every underscore;
  \<open>raw.replace(/[.,;]+$/g, '')\<close> removes the longest run of \<open>.\<close>, \<open>,\<close> and \<open>;\<close> that ends the
  string (the leftmost position from which \<open>[.,;]+\<close> reaches the end).  \<open>None\<close> is \<open>null\<close>.
\<close>

definition underscoresToSpaces :: "string \<Rightarrow> string" where
  "underscoresToSpaces s = map (\<lambda>c. if c = CHR ''_'' then CHR '' '' else c) s"

definition is_trailing_punct :: "char \<Rightarrow> bool" where
  "is_trailing_punct c = (c = CHR ''.'' \<or> c = CHR '','' \<or> c = CHR '';'')"

definition stripTrailingPunct :: "string \<Rightarrow> string" where
  "stripTrailingPunct s = rev (dropWhile is_trailing_punct (rev s))"

definition mapToken :: "string \<Rightarrow> string option" where
  "mapToken rawToken =
     (let raw = trim (underscoresToSpaces rawToken);
          lower = toLowerCase raw
      in if includesStr lower ''others'' then None
         else if lower = ''whiteboard'' then Some ''Whiteboard & Markers''
         else if lower = ''projector'' then Some ''Projector''
         else if lower = ''extension cord'' \<or> lower = ''extension_cord'' then Some ''Extension Cord''
         else if lower = ''hdmi'' then Some ''HDMI Cable''
         else if lower = ''extra chairs'' \<or> lower = ''extra_chairs'' then Some ''Extra Chairs''
         else Some (trim (stripTrailingPunct raw)))"

section \<open>Regular expressions\<close>

text \<open>
  The source works on text with JavaScript regular expressions.  They are modelled by an
  abstract syntax and a backtracking matcher that follows the ECMAScript semantics: a
  matcher returns the states it can end in, in the order in which backtracking tries them,
  so the head of that list is the match that \<open>exec\<close> reports.  \<open>Chr P\<close> consumes one code unit
  satisfying \<open>P\<close> (a literal, a class or \<open>.\<close>); \<open>Rep greedy r mx\<close> is \<open>r*\<close>, \<open>r*?\<close> or \<open>r{0,n}\<close>;
  \<open>Grp n r\<close> is the capture group number \<open>n\<close>; \<open>WordB\<close>, \<open>Bos\<close>, \<open>Eos\<close> are \<open>\b\<close>, \<open>^\<close> and \<open>$\<close> (no
  \<open>m\<close> flag occurs in the source).  No regular expression of the source has a capture group
  under a quantifier, so captures are never reset.
\<close>

datatype regex =
    Chr "char \<Rightarrow> bool"
  | Eps
  | Seq regex regex
  | Alt regex regex
  | Rep bool regex "nat option"
  | Grp nat regex
  | Backref nat
  | WordB
  | Bos
  | Eos

type_synonym captures = "(nat \<times> string) list"

text \<open>A matcher state: the code unit before the current position (\<open>None\<close> at the start of
  the input), the input from the current position on, and the captures made so far (the
  latest first).\<close>

record mstate =
  prevChar :: "char option"
  remaining :: string
  captured :: captures

definition is_digit :: "char \<Rightarrow> bool" where
  "is_digit c = oneOf ''0123456789'' c"

definition is_alpha :: "char \<Rightarrow> bool" where
  "is_alpha c = oneOf ''abcdefghijklmnopqrstuvwxyzABCDEFGHIJKLMNOPQRSTUVWXYZ'' c"

definition is_alnum :: "char \<Rightarrow> bool" where
  "is_alnum c = (is_alpha c \<or> is_digit c)"

text \<open>\<open>\w\<close>: letters, digits and the underscore.\<close>

definition is_word_char :: "char \<Rightarrow> bool" where
  "is_word_char c = (is_alnum c \<or> c = CHR ''_'')"

definition word_before :: "mstate \<Rightarrow> bool" where
  "word_before st = (case prevChar st of None \<Rightarrow> False | Some c \<Rightarrow> is_word_char c)"

definition word_after :: "mstate \<Rightarrow> bool" where
  "word_after st = (case remaining st of [] \<Rightarrow> False | c # _ \<Rightarrow> is_word_char c)"

definition advance :: "string \<Rightarrow> mstate \<Rightarrow> mstate" where
  "advance w st =
     (if w = [] then st
      else st\<lparr>prevChar := Some (last w), remaining := drop (length w) (remaining st)\<rparr>)"

text \<open>
  The matcher.  A repetition tries one more iteration before (greedy) or after (lazy) it
  tries to stop, and an iteration that consumes nothing is rejected, as \<open>RepeatMatcher\<close> of
  the language specification does for a lower bound of zero.  A back-reference to a group
  that has not matched matches the empty string.
\<close>

function (sequential) ms :: "regex \<Rightarrow> mstate \<Rightarrow> mstate list" where
  "ms (Chr P) st =
     (case remaining st of
        [] \<Rightarrow> []
      | c # cs \<Rightarrow> if P c then [st\<lparr>prevChar := Some c, remaining := cs\<rparr>] else [])"
| "ms Eps st = [st]"
| "ms (Seq a b) st = concat (map (ms b) (ms a st))"
| "ms (Alt a b) st = ms a st @ ms b st"
| "ms (Rep greedy r mx) st =
     (if mx = Some 0 then [st]
      else let more = concat (map (\<lambda>st'. if length (remaining st') < length (remaining st)
                                          then ms (Rep greedy r (map_option (\<lambda>n. n - 1) mx)) st'
                                          else [])
                                  (ms r st))
           in if greedy then more @ [st] else st # more)"
| "ms (Grp n r) st =
     map (\<lambda>st'. st'\<lparr>captured :=
                    (n, take (length (remaining st) - length (remaining st')) (remaining st))
                    # captured st'\<rparr>)
         (ms r st)"
| "ms (Backref n) st =
     (case map_of (captured st) n of
        None \<Rightarrow> [st]
      | Some w \<Rightarrow> if prefix w (remaining st) then [advance w st] else [])"
| "ms WordB st = (if word_before st \<noteq> word_after st then [st] else [])"
| "ms Bos st = (if prevChar st = None then [st] else [])"
| "ms Eos st = (if remaining st = [] then [st] else [])"
  by pat_completeness auto
termination
  by (relation "inv_image (less_than <*lex*> less_than)
                  (\<lambda>(r, st). (size r, length (remaining st)))") auto

text \<open>The match that starts exactly at the current position, if any: the matched text
  and the captures.\<close>

definition matchAt :: "regex \<Rightarrow> char option \<Rightarrow> string \<Rightarrow> (string \<times> captures) option" where
  "matchAt r p s =
     (case ms r \<lparr>prevChar = p, remaining = s, captured = []\<rparr> of
        [] \<Rightarrow> None
      | st' # _ \<Rightarrow> Some (take (length s - length (remaining st')) s, captured st'))"

definition capture :: "captures \<Rightarrow> nat \<Rightarrow> string" where
  "capture cs n = (case map_of cs n of None \<Rightarrow> [] | Some w \<Rightarrow> w)"

text \<open>
  \<open>s.replace(/r/g, f)\<close>: the input is scanned from left to right; \<open>k\<close> counts the code units
  of the current match that are still to be skipped; after an empty match the scan moves on
  by one code unit.  \<open>f\<close> receives the matched text and the captures.
\<close>

fun replaceG :: "regex \<Rightarrow> (string \<Rightarrow> captures \<Rightarrow> string) \<Rightarrow> char option \<Rightarrow> nat \<Rightarrow> string \<Rightarrow> string" where
  "replaceG r f p k [] =
     (if k = 0 then (case matchAt r p [] of None \<Rightarrow> [] | Some (m, cs) \<Rightarrow> f m cs) else [])"
| "replaceG r f p k (c # s) =
     (if 0 < k then replaceG r f (Some c) (k - 1) s
      else case matchAt r p (c # s) of
             None \<Rightarrow> c # replaceG r f (Some c) 0 s
           | Some (m, cs) \<Rightarrow>
               if m = [] then f m cs @ c # replaceG r f (Some c) 0 s
               else f m cs @ replaceG r f (Some c) (length m - 1) s)"

definition replaceGlobal :: "regex \<Rightarrow> (string \<Rightarrow> captures \<Rightarrow> string) \<Rightarrow> string \<Rightarrow> string" where
  "replaceGlobal r f s = replaceG r f None 0 s"

text \<open>\<open>s.match(/r/g)\<close>, \<open>s.matchAll(/r/g)\<close> and the loop \<open>while ((m = re.exec(s)) !== null)\<close>: every
  match from left to right, with its captures.\<close>

fun matchG :: "regex \<Rightarrow> char option \<Rightarrow> nat \<Rightarrow> string \<Rightarrow> (string \<times> captures) list" where
  "matchG r p k [] =
     (if k = 0 then (case matchAt r p [] of None \<Rightarrow> [] | Some mc \<Rightarrow> [mc]) else [])"
| "matchG r p k (c # s) =
     (if 0 < k then matchG r (Some c) (k - 1) s
      else case matchAt r p (c # s) of
             None \<Rightarrow> matchG r (Some c) 0 s
           | Some (m, cs) \<Rightarrow> (m, cs) # matchG r (Some c) (length m - 1) s)"

definition matchGlobal :: "regex \<Rightarrow> string \<Rightarrow> (string \<times> captures) list" where
  "matchGlobal r s = matchG r None 0 s"

text \<open>\<open>s.match(/r/)\<close> and \<open>/r/.exec(s)\<close> without the \<open>g\<close> flag: the leftmost match, as the text
  before it, the matched text, the captures and the text after it.\<close>

fun searchFirst :: "regex \<Rightarrow> char option \<Rightarrow> string \<Rightarrow> (string \<times> string \<times> captures \<times> string) option" where
  "searchFirst r p [] =
     (case matchAt r p [] of None \<Rightarrow> None | Some (m, cs) \<Rightarrow> Some ([], m, cs, []))"
| "searchFirst r p (c # s) =
     (case matchAt r p (c # s) of
        Some (m, cs) \<Rightarrow> Some ([], m, cs, drop (length m) (c # s))
      | None \<Rightarrow>
          map_option (\<lambda>(pre, m, cs, suf). (c # pre, m, cs, suf)) (searchFirst r (Some c) s))"

definition replaceFirst :: "regex \<Rightarrow> (string \<Rightarrow> captures \<Rightarrow> string) \<Rightarrow> string \<Rightarrow> string" where
  "replaceFirst r f s =
     (case searchFirst r None s of
        None \<Rightarrow> s
      | Some (pre, m, cs, suf) \<Rightarrow> pre @ f m cs @ suf)"

text \<open>\<open>s.replace(pat, '')\<close> with a string pattern: the first occurrence is removed.\<close>

definition removeFirstStr :: "string \<Rightarrow> string \<Rightarrow> string" where
  "removeFirstStr s pat =
     (case indexOf s pat of None \<Rightarrow> s | Some i \<Rightarrow> take i s @ drop (i + length pat) s)"

text \<open>\<open>s.split(/r/)\<close> for a separator without capture groups: \<open>acc\<close> is the current piece,
  reversed.  A separator match that is empty at the start of a piece is skipped.\<close>

fun splitG :: "regex \<Rightarrow> char option \<Rightarrow> nat \<Rightarrow> string \<Rightarrow> string \<Rightarrow> string list" where
  "splitG r p k acc [] = [rev acc]"
| "splitG r p k acc (c # s) =
     (if 0 < k then splitG r (Some c) (k - 1) acc s
      else case matchAt r p (c # s) of
             None \<Rightarrow> splitG r (Some c) 0 (c # acc) s
           | Some (m, cs) \<Rightarrow>
               if m = [] then
                 (if acc = [] then splitG r (Some c) 0 [c] s
                  else rev acc # splitG r (Some c) 0 [c] s)
               else rev acc # splitG r (Some c) (length m - 1) [] s)"

definition splitRegex :: "regex \<Rightarrow> string \<Rightarrow> string list" where
  "splitRegex r s =
     (if s = [] then (case matchAt r None [] of None \<Rightarrow> [[]] | Some _ \<Rightarrow> [])
      else splitG r None 0 [] s)"

text \<open>\<open>xs.join(sep)\<close> on strings.\<close>

fun joinStr :: "string \<Rightarrow> string list \<Rightarrow> string" where
  "joinStr sep [] = []"
| "joinStr sep [x] = x"
| "joinStr sep (x # y # ys) = x @ sep @ joinStr sep (y # ys)"

subsection \<open>Notation of the patterns\<close>

definition ch :: "char \<Rightarrow> regex" where
  "ch c = Chr (\<lambda>x. x = c)"

definition lit :: "string \<Rightarrow> regex" where
  "lit w = foldr (\<lambda>c r. Seq (ch c) r) w Eps"

text \<open>A literal under the \<open>i\<close> flag.  The literals of the source are ASCII, for which
  two code units are equal up to case exactly if their lower-case forms are equal.\<close>

definition litI :: "string \<Rightarrow> regex" where
  "litI w = foldr (\<lambda>c r. Seq (Chr (\<lambda>x. lower_char x = lower_char c)) r) w Eps"

definition rStar :: "regex \<Rightarrow> regex" where
  "rStar r = Rep True r None"

definition rLazyStar :: "regex \<Rightarrow> regex" where
  "rLazyStar r = Rep False r None"

definition rPlus :: "regex \<Rightarrow> regex" where
  "rPlus r = Seq r (rStar r)"

definition rLazyPlus :: "regex \<Rightarrow> regex" where
  "rLazyPlus r = Seq r (rLazyStar r)"

fun rTimes :: "nat \<Rightarrow> regex \<Rightarrow> regex" where
  "rTimes 0 r = Eps"
| "rTimes (Suc n) r = Seq r (rTimes n r)"

text \<open>\<open>r{n,}\<close>, \<open>r{m,n}\<close> and \<open>r?\<close>: the first \<open>n\<close> (or \<open>m\<close>) iterations are mandatory.\<close>

definition rAtLeast :: "nat \<Rightarrow> regex \<Rightarrow> regex" where
  "rAtLeast n r = Seq (rTimes n r) (rStar r)"

definition rBetween :: "nat \<Rightarrow> nat \<Rightarrow> regex \<Rightarrow> regex" where
  "rBetween m n r = Seq (rTimes m r) (Rep True r (Some (n - m)))"

definition rOpt :: "regex \<Rightarrow> regex" where
  "rOpt r = Rep True r (Some 1)"

text \<open>\<open>[\s\S]\<close>, \<open>[^\n]\<close>, \<open>.\<close> (no line terminator) and \<open>[^"]\<close>.\<close>

definition anyChar :: "char \<Rightarrow> bool" where
  "anyChar c = True"

definition notNewline :: "char \<Rightarrow> bool" where
  "notNewline c = (c \<noteq> CHR 0x0A)"

definition dotChar :: "char \<Rightarrow> bool" where
  "dotChar c = (c \<noteq> CHR 0x0A \<and> c \<noteq> CHR 0x0D)"

definition notQuote :: "char \<Rightarrow> bool" where
  "notQuote c = (c \<noteq> CHR 0x22)"

text \<open>The e-mail pattern \<open>[a-zA-Z0-9._%+-]+@[a-zA-Z0-9.-]+\.[A-Za-z]{2,}\<close> (lines 36, 394).\<close>

definition emailRe :: regex where
  "emailRe =
     Seq (rPlus (Chr (\<lambda>c. is_alnum c \<or> oneOf ''._%+-'' c)))
       (Seq (ch CHR ''@'')
         (Seq (rPlus (Chr (\<lambda>c. is_alnum c \<or> oneOf ''.-'' c)))
           (Seq (ch CHR ''.'') (rAtLeast 2 (Chr is_alpha)))))"

text \<open>\<open>(\{[\s\S]*?\})\<close> (lines 96, 387): from a \<open>{\<close> lazily to a \<open>}\<close>.\<close>

definition lazyBlockRe :: regex where
  "lazyBlockRe = Grp 1 (Seq (ch CHR ''{'') (Seq (rLazyStar (Chr anyChar)) (ch CHR ''}'')))"

section \<open>JSON values\<close>

text \<open>
  The values that \<open>JSON.parse\<close> returns and that \<open>structuredNote\<close> can hold.  The source
  observes a number only through its truthiness and through \<open>String\<close>, so \<open>JNum t s\<close> stands
  for a number that is truthy iff \<open>t\<close> and prints as \<open>s\<close>.  \<open>JObj\<close> lists the own properties in
  the order of \<open>Object.keys\<close>.
\<close>

datatype json =
    JNull
  | JBool bool
  | JNum bool string
  | JStr string
  | JArr "json list"
  | JObj "(string \<times> json) list"

text \<open>What the source can raise, and \<open>Unmodelled\<close> for an input on which the model says
  nothing (see \<open>JSON_parse\<close>).\<close>

datatype js_error = TypeError | Unmodelled

definition truthy :: "json \<Rightarrow> bool" where
  "truthy v =
     (case v of
        JNull \<Rightarrow> False
      | JBool b \<Rightarrow> b
      | JNum t _ \<Rightarrow> t
      | JStr s \<Rightarrow> s \<noteq> []
      | JArr _ \<Rightarrow> True
      | JObj _ \<Rightarrow> True)"

text \<open>
  \<open>String(v)\<close>.  For an object, \<open>ToPrimitive\<close> looks up \<open>toString\<close> and then \<open>valueOf\<close>: an own
  property \<open>toString\<close> of a parsed object is never callable, and \<open>valueOf\<close> (own and not
  callable, or inherited and returning the object) yields no primitive, so the conversion
  throws a \<open>TypeError\<close>; without an own \<open>toString\<close> the result is \<open>[object Object]\<close>.  An array
  joins the strings of its elements with commas, \<open>null\<close> giving the empty string.
\<close>

fun toStr :: "json \<Rightarrow> js_error + string"
  and toStrElems :: "json list \<Rightarrow> js_error + string list" where
  "toStr JNull = Inr ''null''"
| "toStr (JBool b) = Inr (if b then ''true'' else ''false'')"
| "toStr (JNum t s) = Inr s"
| "toStr (JStr s) = Inr s"
| "toStr (JArr xs) =
     (case toStrElems xs of Inl e \<Rightarrow> Inl e | Inr ss \<Rightarrow> Inr (joinStr '','' ss))"
| "toStr (JObj kvs) =
     (if ''toString'' \<in> set (map fst kvs) then Inl TypeError else Inr ''[object Object]'')"
| "toStrElems [] = Inr []"
| "toStrElems (x # xs) =
     (case (if x = JNull then Inr [] else toStr x) of
        Inl e \<Rightarrow> Inl e
      | Inr s \<Rightarrow> (case toStrElems xs of Inl e \<Rightarrow> Inl e | Inr ss \<Rightarrow> Inr (s # ss)))"

text \<open>\<open>v.items\<close> and \<open>v.others\<close>: only an object has such a property (no prototype defines
  one); \<open>None\<close> is \<open>undefined\<close>.\<close>

definition getProp :: "json \<Rightarrow> string \<Rightarrow> json option" where
  "getProp v k = (case v of JObj kvs \<Rightarrow> map_of kvs k | _ \<Rightarrow> None)"

definition propTruthy :: "json \<Rightarrow> string \<Rightarrow> bool" where
  "propTruthy v k = (case getProp v k of None \<Rightarrow> False | Some x \<Rightarrow> truthy x)"

text \<open>\<open>typeof v === 'object'\<close> for a truthy \<open>v\<close>.\<close>

definition isObject :: "json \<Rightarrow> bool" where
  "isObject v = (case v of JObj _ \<Rightarrow> True | JArr _ \<Rightarrow> True | _ \<Rightarrow> False)"

subsection \<open>Property order of objects\<close>

text \<open>
  \<open>Object.keys\<close> lists the array indices (canonical numerals up to \<open>2^32 - 2\<close>) in ascending
  order and then the other keys in the order of their creation.  \<open>objDefine\<close> creates or
  overwrites an own property; \<open>objSet\<close> is the assignment \<open>obj[k] = v\<close> of a string to an object
  literal, which does nothing for the key \<open>__proto__\<close>.
\<close>

definition digitsValue :: "string \<Rightarrow> int" where
  "digitsValue ds = foldl (\<lambda>n c. 10 * n + (int (code_unit c) - 48)) 0 ds"

definition isArrayIndex :: "string \<Rightarrow> bool" where
  "isArrayIndex k =
     (k \<noteq> [] \<and> list_all is_digit k \<and> (k = ''0'' \<or> hd k \<noteq> CHR ''0'')
      \<and> digitsValue k \<le> 4294967294)"

fun insertIndexed :: "string \<Rightarrow> 'v \<Rightarrow> (string \<times> 'v) list \<Rightarrow> (string \<times> 'v) list" where
  "insertIndexed k v [] = [(k, v)]"
| "insertIndexed k v ((k', v') # al) =
     (if isArrayIndex k' \<and> digitsValue k' < digitsValue k then (k', v') # insertIndexed k v al
      else (k, v) # (k', v') # al)"

definition objDefine :: "(string \<times> 'v) list \<Rightarrow> string \<Rightarrow> 'v \<Rightarrow> (string \<times> 'v) list" where
  "objDefine al k v =
     (if k \<in> set (map fst al) then AList.update k v al
      else if isArrayIndex k then insertIndexed k v al
      else al @ [(k, v)])"

definition objSet :: "(string \<times> 'v) list \<Rightarrow> string \<Rightarrow> 'v \<Rightarrow> (string \<times> 'v) list" where
  "objSet al k v = (if k = ''__proto__'' then al else objDefine al k v)"

subsection \<open>\<open>JSON.parse\<close>\<close>

text \<open>
  \<open>JSON.parse\<close> is a built-in of the platform; the parser below follows the JSON grammar of
  the language specification.  Its number type and its strings are wider than the model:
  a number with a fraction, an exponent or more than 15 digits, and an escape \<open>\uXXXX\<close> above
  \<open>0xFF\<close>, give \<open>PUnm\<close> (outside the model), as does running out of the recursion budget
  \<open>n\<close> (which is given as the length of the text plus one).
\<close>

datatype 'a pres = POk 'a string | PErr | PUnm

definition jsonWs :: "char \<Rightarrow> bool" where
  "jsonWs c = oneOf [CHR 0x09, CHR 0x0A, CHR 0x0D, CHR 0x20] c"

text \<open>The control characters \<open>0x00\<close> to \<open>0x1F\<close>, which a string literal must escape.\<close>

definition is_control :: "char \<Rightarrow> bool" where
  "is_control c = (\<not> digit7 c \<and> \<not> digit6 c \<and> \<not> digit5 c)"

definition skipWs :: "string \<Rightarrow> string" where
  "skipWs s = dropWhile jsonWs s"

definition hexValue :: "char \<Rightarrow> nat option" where
  "hexValue c =
     map_of (zip ''0123456789abcdef'' [0 ..< 16] @ zip ''ABCDEF'' [10 ..< 16]) c"

definition unicodeEscape :: "char \<Rightarrow> char \<Rightarrow> char \<Rightarrow> char \<Rightarrow> char pres" where
  "unicodeEscape a b c d =
     (case (hexValue a, hexValue b, hexValue c, hexValue d) of
        (Some x, Some y, Some z, Some w) \<Rightarrow>
          (if x = 0 \<and> y = 0 then POk (char_of (16 * z + w)) [] else PUnm)
      | _ \<Rightarrow> PErr)"

definition simpleEscape :: "char \<Rightarrow> char option" where
  "simpleEscape e =
     (if e = CHR 0x22 then Some (CHR 0x22)
      else if e = CHR 0x5C then Some (CHR 0x5C)
      else if e = CHR ''/'' then Some (CHR ''/'')
      else if e = CHR ''b'' then Some (CHR 0x08)
      else if e = CHR ''f'' then Some (CHR 0x0C)
      else if e = CHR ''n'' then Some (CHR 0x0A)
      else if e = CHR ''r'' then Some (CHR 0x0D)
      else if e = CHR ''t'' then Some (CHR 0x09)
      else None)"

text \<open>The characters of a string literal after its opening quote; \<open>acc\<close> is the string so
  far, reversed.\<close>

fun parseStr :: "string \<Rightarrow> string \<Rightarrow> string pres" where
  "parseStr acc [] = PErr"
| "parseStr acc [c] = (if c = CHR 0x22 then POk (rev acc) [] else PErr)"
| "parseStr acc (c # e # cs) =
     (if c = CHR 0x22 then POk (rev acc) (e # cs)
      else if c = CHR 0x5C then
        (if e = CHR ''u'' then
           (case cs of
              h1 # h2 # h3 # h4 # r \<Rightarrow>
                (case unicodeEscape h1 h2 h3 h4 of
                   POk u _ \<Rightarrow> parseStr (u # acc) r
                 | PErr \<Rightarrow> PErr
                 | PUnm \<Rightarrow> PUnm)
            | _ \<Rightarrow> PErr)
         else (case simpleEscape e of None \<Rightarrow> PErr | Some u \<Rightarrow> parseStr (u # acc) cs))
      else if is_control c then PErr
      else parseStr (c # acc) (e # cs))"

definition parseNumber :: "string \<Rightarrow> json pres" where
  "parseNumber s =
     (let neg = (s \<noteq> [] \<and> hd s = CHR ''-'');
          body = (if neg then tl s else s);
          ds = takeWhile is_digit body;
          r = dropWhile is_digit body
      in if ds = [] \<or> (hd ds = CHR ''0'' \<and> ds \<noteq> ''0'') then PErr
         else if r \<noteq> [] \<and> hd r \<in> {CHR ''.'', CHR ''e'', CHR ''E''} then PUnm
         else if 15 < length ds then PUnm
         else if ds = ''0'' then POk (JNum False ''0'') r
         else POk (JNum True ((if neg then ''-'' else []) @ ds)) r)"

fun parseValue :: "nat \<Rightarrow> string \<Rightarrow> json pres"
  and parseElements :: "nat \<Rightarrow> json list \<Rightarrow> string \<Rightarrow> json pres"
  and parseMembers :: "nat \<Rightarrow> (string \<times> json) list \<Rightarrow> string \<Rightarrow> json pres" where
  "parseValue 0 s = PUnm"
| "parseValue (Suc n) s =
     (case skipWs s of
        [] \<Rightarrow> PErr
      | c # cs \<Rightarrow>
          if c = CHR ''{'' then
            (case skipWs cs of
               [] \<Rightarrow> PErr
             | d # r \<Rightarrow> if d = CHR ''}'' then POk (JObj []) r else parseMembers n [] cs)
          else if c = CHR ''['' then
            (case skipWs cs of
               [] \<Rightarrow> PErr
             | d # r \<Rightarrow> if d = CHR '']'' then POk (JArr []) r else parseElements n [] cs)
          else if c = CHR 0x22 then
            (case parseStr [] cs of POk w r \<Rightarrow> POk (JStr w) r | PErr \<Rightarrow> PErr | PUnm \<Rightarrow> PUnm)
          else if prefix ''true'' (c # cs) then POk (JBool True) (drop 4 (c # cs))
          else if prefix ''false'' (c # cs) then POk (JBool False) (drop 5 (c # cs))
          else if prefix ''null'' (c # cs) then POk JNull (drop 4 (c # cs))
          else if c = CHR ''-'' \<or> is_digit c then parseNumber (c # cs)
          else PErr)"
| "parseElements 0 acc s = PUnm"
| "parseElements (Suc n) acc s =
     (case parseValue n s of
        POk v r \<Rightarrow>
          (case skipWs r of
             [] \<Rightarrow> PErr
           | d # t \<Rightarrow>
               if d = CHR '','' then parseElements n (v # acc) t
               else if d = CHR '']'' then POk (JArr (rev (v # acc))) t
               else PErr)
      | PErr \<Rightarrow> PErr
      | PUnm \<Rightarrow> PUnm)"
| "parseMembers 0 acc s = PUnm"
| "parseMembers (Suc n) acc s =
     (case skipWs s of
        [] \<Rightarrow> PErr
      | q # cs \<Rightarrow>
          if q \<noteq> CHR 0x22 then PErr
          else (case parseStr [] cs of
                  POk k r \<Rightarrow>
                    (case skipWs r of
                       [] \<Rightarrow> PErr
                     | d # t \<Rightarrow>
                         if d \<noteq> CHR '':'' then PErr
                         else (case parseValue n t of
                                 POk v r' \<Rightarrow>
                                   (case skipWs r' of
                                      [] \<Rightarrow> PErr
                                    | d' # t' \<Rightarrow>
                                        if d' = CHR '','' then parseMembers n (objDefine acc k v) t'
                                        else if d' = CHR ''}'' then POk (JObj (objDefine acc k v)) t'
                                        else PErr)
                               | PErr \<Rightarrow> PErr
                               | PUnm \<Rightarrow> PUnm))
                | PErr \<Rightarrow> PErr
                | PUnm \<Rightarrow> PUnm))"

datatype parsed_json = Parsed json | SyntaxError | OutsideModel

definition JSON_parse :: "string \<Rightarrow> parsed_json" where
  "JSON_parse text =
     (case parseValue (Suc (length text)) text of
        POk v r \<Rightarrow> if skipWs r = [] then Parsed v else SyntaxError
      | PErr \<Rightarrow> SyntaxError
      | PUnm \<Rightarrow> OutsideModel)"

section \<open>The alert parser\<close>

text \<open>
  An alert record as the feeds deliver it.  A missing \<open>title\<close>, \<open>message\<close> or \<open>details\<close> is the
  empty string (the source reads each through \<open>x || ''\<close>); a missing \<open>structuredNote\<close> or
  \<open>userId\<close> is \<open>None\<close>; \<open>createdAt\<close> is the time value \<open>new Date(createdAt).getTime()\<close> of a valid
  date.
\<close>

datatype alert = Alert
  (alertId: string)
  (title: string)
  (message: string)
  (details: string)
  (structuredNote: "json option")
  (userId: "string option")
  (isRead: bool)
  (createdAt: int)

datatype status = Prepared | NotAvailable | Pending

text \<open>
  The fields of the result of \<open>parseEquipmentAlert\<close> that the claims are about.  The fields
  \<open>visibleTitle\<close> and \<open>cleaned\<close> are computed last (lines 276-373), from the title and the
  remaining text only, in statements that cannot throw on strings; they are not modelled.
\<close>

datatype parsed_alert = ParsedAlert
  (titleRequesterEmail: "string option")
  (equipmentList: "string list")
  (othersText: "string option")
  (needsObj: "json option")
  (itemsWithStatus: "(string \<times> status) list option")

subsection \<open>\<open>extractJsonAroundKey\<close> (lines 55-76)\<close>

text \<open>The loop \<open>for (let i = open; i < text.length; i++)\<close>: \<open>matchClose\<close> runs over the text
  from position \<open>i\<close> on with the current \<open>depth\<close>.\<close>

fun matchClose :: "string \<Rightarrow> nat \<Rightarrow> int \<Rightarrow> nat option" where
  "matchClose [] i depth = None"
| "matchClose (c # cs) i depth =
     (if c = CHR ''{'' then matchClose cs (Suc i) (depth + 1)
      else if c = CHR ''}'' then
        (if depth - 1 = 0 then Some i else matchClose cs (Suc i) (depth - 1))
      else matchClose cs (Suc i) depth)"

definition extractJsonAroundKey :: "string \<Rightarrow> string \<Rightarrow> string option" where
  "extractJsonAroundKey text key =
     (case indexOf text key of
        None \<Rightarrow> None
      | Some idx \<Rightarrow>
          (case (case indexOfFrom text ''{'' idx of
                   Some opn \<Rightarrow> Some opn
                 | None \<Rightarrow> lastIndexOf text ''{'' idx) of
             None \<Rightarrow> None
           | Some opn \<Rightarrow>
               (case matchClose (drop opn text) opn 0 of
                  None \<Rightarrow> None
                | Some i \<Rightarrow> Some (slice text opn (i + 1)))))"

subsection \<open>Finding the needs object (lines 25-129)\<close>

text \<open>\<open>raw.replace(/\\n/g, '\n').replace(/\\"/g, '"')\<close> (lines 29, 384).\<close>

definition unescape :: "string \<Rightarrow> string" where
  "unescape s =
     replaceGlobal (lit [CHR 0x5C, CHR 0x22]) (\<lambda>m cs. [CHR 0x22])
       (replaceGlobal (lit [CHR 0x5C, CHR ''n'']) (\<lambda>m cs. [CHR 0x0A]) s)"

definition needsTruthy :: "json option \<Rightarrow> bool" where
  "needsTruthy n = (case n of None \<Rightarrow> False | Some v \<Rightarrow> truthy v)"

text \<open>Lines 79-92: the block around the key \<open>"items"\<close>.  A block that does not parse resets
  \<open>needsObj\<close> to \<open>null\<close>.\<close>

definition tryItemsBlock :: "string \<Rightarrow> json option \<Rightarrow> js_error + (json option \<times> string)" where
  \<open>tryItemsBlock raw needs =
     (case extractJsonAroundKey raw ''"items"'' of
        None \<Rightarrow> Inr (needs, raw)
      | Some itemsBlock \<Rightarrow>
          if itemsBlock = [] then Inr (needs, raw)
          else (case JSON_parse itemsBlock of
                  Parsed v \<Rightarrow> Inr (Some v, removeFirstStr raw itemsBlock)
                | SyntaxError \<Rightarrow> Inr (None, raw)
                | OutsideModel \<Rightarrow> Inl Unmodelled))\<close>

text \<open>Lines 95-112: the blocks of \<open>raw.matchAll(/(\{[\s\S]*?\})/g)\<close>, the loop that keeps the
  first block that parses, and the removal of every block from \<open>raw\<close>.\<close>

definition jsonBlocksOf :: "string \<Rightarrow> string list" where
  "jsonBlocksOf raw = map (\<lambda>(m, cs). capture cs 1) (matchGlobal lazyBlockRe raw)"

fun firstParsed :: "string list \<Rightarrow> js_error + json option" where
  "firstParsed [] = Inr None"
| "firstParsed (block # blocks) =
     (case JSON_parse block of
        Parsed v \<Rightarrow>
          if truthy v \<and> (propTruthy v ''items'' \<or> propTruthy v ''others'' \<or> isObject v)
          then Inr (Some v) else firstParsed blocks
      | SyntaxError \<Rightarrow> firstParsed blocks
      | OutsideModel \<Rightarrow> Inl Unmodelled)"

fun removeBlocks :: "string list \<Rightarrow> string \<Rightarrow> string" where
  "removeBlocks [] s = s"
| "removeBlocks (b # bs) s = removeBlocks bs (removeFirstStr s b)"

definition parseAnyBlocks :: "string \<Rightarrow> json option \<Rightarrow> js_error + (json option \<times> string)" where
  "parseAnyBlocks raw needs =
     (let jsonBlocks = jsonBlocksOf raw in
      case firstParsed jsonBlocks of
        Inl e \<Rightarrow> Inl e
      | Inr found \<Rightarrow>
          Inr (case found of None \<Rightarrow> needs | Some v \<Rightarrow> Some v, removeBlocks jsonBlocks raw))"

text \<open>Lines 115-120: \<open>/Needs:\s*(\{[\s\S]*\})/i\<close>.\<close>

definition needsRe :: regex where
  "needsRe =
     Seq (litI ''Needs:'') (Seq (rStar (Chr is_ws))
       (Grp 1 (Seq (ch CHR ''{'') (Seq (rStar (Chr anyChar)) (ch CHR ''}'')))))"

definition legacyNeeds :: "string \<Rightarrow> json option \<Rightarrow> js_error + (json option \<times> string)" where
  "legacyNeeds raw needs =
     (case searchFirst needsRe None raw of
        None \<Rightarrow> Inr (needs, raw)
      | Some (pre, m, cs, suf) \<Rightarrow>
          if capture cs 1 = [] then Inr (needs, raw)
          else (case JSON_parse (capture cs 1) of
                  Parsed v \<Rightarrow> Inr (Some v, removeFirstStr raw (capture cs 1))
                | SyntaxError \<Rightarrow> Inr (None, raw)
                | OutsideModel \<Rightarrow> Inl Unmodelled))"

text \<open>\<open>"([^\"]+)"\s*:\s*"([^\"]+)"\<close> (lines 124, 153) and the clean-up of lines 124-127.\<close>

definition quotedPairRe :: regex where
  "quotedPairRe =
     Seq (ch (CHR 0x22)) (Seq (Grp 1 (rPlus (Chr notQuote))) (Seq (ch (CHR 0x22))
       (Seq (rStar (Chr is_ws)) (Seq (ch CHR '':'') (Seq (rStar (Chr is_ws))
         (Seq (ch (CHR 0x22)) (Seq (Grp 2 (rPlus (Chr notQuote))) (ch (CHR 0x22)))))))))"

definition stripFragments :: "string \<Rightarrow> string" where
  "stripFragments raw =
     (let raw = replaceGlobal (Seq quotedPairRe (Seq (rStar (Chr is_ws)) (rOpt (ch CHR '',''))))
                  (\<lambda>m cs. []) raw;
          raw = replaceGlobal (Seq (ch CHR ''}'') (Seq (rStar (Chr is_ws)) (ch CHR ''{'')))
                  (\<lambda>m cs. '' '') raw
      in replaceGlobal (Chr (oneOf ''{}'')) (\<lambda>m cs. []) raw)"

text \<open>Lines 25-129 together: the needs object (\<open>None\<close> is \<open>null\<close>) and the remaining text.
  \<open>JSON.parse\<close> is only called on text that starts with \<open>{\<close>, so a value it returns is an
  object.\<close>

definition obtainNeeds :: "alert \<Rightarrow> js_error + (json option \<times> string)" where
  "obtainNeeds a =
     (let raw = unescape (if message a \<noteq> [] then message a else details a);
          needs = (case structuredNote a of
                     None \<Rightarrow> None
                   | Some v \<Rightarrow> if truthy v then Some v else None)
      in case tryItemsBlock raw needs of
           Inl e \<Rightarrow> Inl e
         | Inr (needs, raw) \<Rightarrow>
             (case (if \<not> needsTruthy needs then parseAnyBlocks raw needs else Inr (needs, raw)) of
                Inl e \<Rightarrow> Inl e
              | Inr (needs, raw) \<Rightarrow>
                  (case (if \<not> needsTruthy needs then legacyNeeds raw needs else Inr (needs, raw)) of
                     Inl e \<Rightarrow> Inl e
                   | Inr (needs, raw) \<Rightarrow> Inr (needs, stripFragments raw))))"

subsection \<open>Items and statuses (lines 131-274)\<close>

text \<open>The tri-state classifier of lines 222, 234 and 247, applied to the lower-cased
  string of a value.\<close>

definition triState :: "string \<Rightarrow> status" where
  "triState val =
     (if val = ''prepared'' \<or> val = ''true'' \<or> val = ''yes'' then Prepared
      else if val = ''not available'' \<or> val = ''not_available'' \<or> val = ''false'' \<or> val = ''no''
      then NotAvailable
      else Pending)"

text \<open>\<open>String(v || '')\<close>, where \<open>None\<close> is \<open>undefined\<close>.\<close>

definition stringOrEmpty :: "json option \<Rightarrow> js_error + string" where
  "stringOrEmpty v = (case v of None \<Rightarrow> Inr [] | Some x \<Rightarrow> if truthy x then toStr x else Inr [])"

text \<open>\<open>mapToken(k) || String(k)\<close>.\<close>

definition labelOf :: "string \<Rightarrow> string" where
  "labelOf k = (case mapToken k of None \<Rightarrow> k | Some l \<Rightarrow> if l = [] then k else l)"

definition statusOfValue :: "json option \<Rightarrow> js_error + status" where
  "statusOfValue rawVal =
     (case stringOrEmpty rawVal of Inl e \<Rightarrow> Inl e | Inr s \<Rightarrow> Inr (triState (toLowerCase s)))"

text \<open>Lines 219-224: \<open>Object.keys(needsObj.items).map(...)\<close>.\<close>

fun itemsFromMap :: "(string \<times> json) list \<Rightarrow> string list \<Rightarrow> js_error + (string \<times> status) list" where
  "itemsFromMap items [] = Inr []"
| "itemsFromMap items (k # ks) =
     (case statusOfValue (map_of items k) of
        Inl e \<Rightarrow> Inl e
      | Inr st \<Rightarrow>
          (case itemsFromMap items ks of
             Inl e \<Rightarrow> Inl e
           | Inr its \<Rightarrow> Inr ((labelOf k, st) # its)))"

text \<open>Lines 232-236 and 245-249: the same map over the keys of a record of strings.\<close>

definition itemsFromPairs :: "(string \<times> string) list \<Rightarrow> (string \<times> status) list" where
  "itemsFromPairs pairs =
     map (\<lambda>k. (labelOf k, triState (toLowerCase (case map_of pairs k of None \<Rightarrow> [] | Some v \<Rightarrow> v))))
       (map fst pairs)"

text \<open>\<open>parseQuotedPairs\<close> (lines 150-160).\<close>

definition parseQuotedPairs :: "string \<Rightarrow> (string \<times> string) list" where
  "parseQuotedPairs combinedMessage =
     foldl (\<lambda>pairs (m, cs). objSet pairs (capture cs 1) (capture cs 2)) []
       (matchGlobal quotedPairRe combinedMessage)"

text \<open>\<open>parseInlineLabelStatus\<close> (lines 163-187), with the pattern
  \<open>([A-Za-z0-9 &]+?)\s*[:\-]\s*(prepared|not_available|not available|prepared|true|false|yes|no)\<close>
  under the \<open>i\<close> flag, and the separator \<open>\u2022|\u2023|\u25E6|\*|\n\<close>, whose first three
  alternatives match no code unit of the model.\<close>

definition statusWordRe :: regex where
  "statusWordRe =
     Alt (litI ''prepared'') (Alt (litI ''not_available'') (Alt (litI ''not available'')
       (Alt (litI ''prepared'') (Alt (litI ''true'') (Alt (litI ''false'')
         (Alt (litI ''yes'') (litI ''no'')))))))"

definition inlineRe :: regex where
  "inlineRe =
     Seq (Grp 1 (rLazyPlus (Chr (\<lambda>c. is_alnum c \<or> oneOf '' &'' c))))
       (Seq (rStar (Chr is_ws)) (Seq (Chr (oneOf '':-''))
         (Seq (rStar (Chr is_ws)) (Grp 2 statusWordRe))))"

definition bulletRe :: regex where
  "bulletRe =
     Alt (Chr (\<lambda>c. False)) (Alt (Chr (\<lambda>c. False))
       (Alt (Chr (\<lambda>c. False)) (Alt (ch CHR ''*'') (ch (CHR 0x0A)))))"

definition parseInlineLabelStatus :: "string \<Rightarrow> string \<Rightarrow> (string \<times> string) list" where
  "parseInlineLabelStatus combinedMessage raw =
     (let text = (if combinedMessage \<noteq> [] then combinedMessage else raw);
          pairs = foldl (\<lambda>pairs (m, cs).
                           let key = trim (capture cs 1); val = trim (capture cs 2)
                           in if key \<noteq> [] then objSet pairs key val else pairs)
                        [] (matchGlobal inlineRe text)
      in if map fst pairs = [] then
           foldl (\<lambda>pairs part.
                    case searchFirst inlineRe None part of
                      None \<Rightarrow> pairs
                    | Some (pre, m, cs, suf) \<Rightarrow>
                        objSet pairs (trim (capture cs 1)) (trim (capture cs 2)))
                 pairs (splitRegex bulletRe text)
         else pairs)"

text \<open>The callback of \<open>needsObj.items.map\<close> (lines 201-210) and of \<open>parts.map\<close> (lines
  255-263) on the string of a token, with the variable \<open>othersFromItems\<close> threaded through;
  \<open>/.*?others[:\s-]*/i\<close> is the pattern of lines 205 and 258.\<close>

definition othersPrefixRe :: regex where
  "othersPrefixRe =
     Seq (rLazyStar (Chr dotChar)) (Seq (litI ''others'')
       (rStar (Chr (\<lambda>c. c = CHR '':'' \<or> is_ws c \<or> c = CHR ''-''))))"

fun mapTokens :: "string list \<Rightarrow> string \<Rightarrow> string option list \<times> string" where
  "mapTokens [] others = ([], others)"
| "mapTokens (rawTok # toks) others =
     (if includesStr (toLowerCase rawTok) ''others'' then
        (let trailing = trim (replaceFirst othersPrefixRe (\<lambda>m cs. []) rawTok);
             others' = (if trailing \<noteq> [] \<and> others = [] then trailing else others)
         in case mapTokens toks others' of (mapped, oth) \<Rightarrow> (None # mapped, oth))
      else (case mapTokens toks others of (mapped, oth) \<Rightarrow> (mapToken rawTok # mapped, oth)))"

text \<open>\<open>.filter(Boolean)\<close> on an array of strings and nulls.\<close>

definition filterBoolean :: "string option list \<Rightarrow> string list" where
  "filterBoolean xs =
     concat (map (\<lambda>x. case x of None \<Rightarrow> [] | Some s \<Rightarrow> if s = [] then [] else [s]) xs)"

text \<open>\<open>String(s || '')\<close> for every element of \<open>needsObj.items\<close> (line 202).  The call is
  outside every \<open>try\<close>, so a \<open>TypeError\<close> leaves the function.\<close>

fun stringsOf :: "json list \<Rightarrow> js_error + string list" where
  "stringsOf [] = Inr []"
| "stringsOf (s # ss) =
     (case stringOrEmpty (Some s) of
        Inl e \<Rightarrow> Inl e
      | Inr rawTok \<Rightarrow> (case stringsOf ss of Inl e \<Rightarrow> Inl e | Inr toks \<Rightarrow> Inr (rawTok # toks)))"

text \<open>Lines 191-197: an object without a truthy \<open>items\<close> whose values are all strings or
  booleans is taken as the items map itself.\<close>

definition ownPropValues :: "json \<Rightarrow> json option list" where
  "ownPropValues v =
     (case v of
        JObj kvs \<Rightarrow> map (\<lambda>k. map_of kvs k) (map fst kvs)
      | JArr xs \<Rightarrow> map Some xs
      | _ \<Rightarrow> [])"

definition isStringOrBoolean :: "json option \<Rightarrow> bool" where
  "isStringOrBoolean v = (case v of Some (JStr _) \<Rightarrow> True | Some (JBool _) \<Rightarrow> True | _ \<Rightarrow> False)"

definition normalizeNeeds :: "json \<Rightarrow> json" where
  "normalizeNeeds needs =
     (if \<not> propTruthy needs ''items'' \<and> isObject needs then
        (let vals = ownPropValues needs in
         if vals \<noteq> [] \<and> list_all isStringOrBoolean vals then JObj [(''items'', needs)] else needs)
      else needs)"

text \<open>Line 132 (\<open>/Requested equipment:\s*([^\[]+)/i\<close>), line 266 (\<open>/Others?:\s*(.*)$/i\<close>) and
  line 36 (the e-mail address that ends the title after a dash; of the class \<open>[\u2014\u2013-]\<close>
  only the hyphen is a code unit of the model).\<close>

definition reqEquipRe :: regex where
  "reqEquipRe =
     Seq (litI ''Requested equipment:'') (Seq (rStar (Chr is_ws))
       (Grp 1 (rPlus (Chr (\<lambda>c. c \<noteq> CHR ''['')))))"

definition othersTailRe :: regex where
  "othersTailRe =
     Seq (litI ''Other'') (Seq (rOpt (litI ''s'')) (Seq (ch CHR '':'')
       (Seq (rStar (Chr is_ws)) (Seq (Grp 1 (rStar (Chr dotChar))) Eos))))"

definition titleEmailRe :: regex where
  "titleEmailRe =
     Seq (Chr (\<lambda>c. c = CHR ''-''))
       (Seq (rStar (Chr is_ws)) (Seq (Grp 1 emailRe) (Seq (rStar (Chr is_ws)) Eos)))"

text \<open>Lines 271-274: the placeholder \<open>and others\<close>.\<close>

definition pushAndOthers :: "string option \<Rightarrow> string list \<Rightarrow> string list" where
  "pushAndOthers others eq =
     (if others \<noteq> None \<and> others \<noteq> Some [] \<and> ''and others'' \<notin> set eq
      then eq @ [''and others''] else eq)"

text \<open>Lines 189-251, the branch \<open>if (needsObj)\<close>: the equipment list and the others text
  from an items array (a \<open>TypeError\<close> of \<open>String\<close> leaves the function), then the items with
  status from an items map (inside \<open>try\<close>: an error gives \<open>null\<close>), from the quoted pairs and
  from the inline fragments of the message.\<close>

definition inferFromNeeds ::
  "json \<Rightarrow> string \<Rightarrow> string \<Rightarrow>
   js_error + (string list \<times> string option \<times> json \<times> (string \<times> status) list option)" where
  "inferFromNeeds needs0 raw combinedMessage =
     (let needs = normalizeNeeds needs0 in
      case (case getProp needs ''items'' of
              Some (JArr items) \<Rightarrow>
                (case stringsOf items of
                   Inl e \<Rightarrow> Inl e
                 | Inr toks \<Rightarrow>
                     (case mapTokens toks [] of
                        (mapped, othersFromItems) \<Rightarrow>
                          if othersFromItems \<noteq> [] then Inr (filterBoolean mapped, Some othersFromItems)
                          else if propTruthy needs ''others'' then
                            (case stringOrEmpty (getProp needs ''others'') of
                               Inl e \<Rightarrow> Inl e
                             | Inr s \<Rightarrow> Inr (filterBoolean mapped, Some (trim s)))
                          else Inr (filterBoolean mapped, None)))
            | _ \<Rightarrow> Inr ([], None)) of
        Inl e \<Rightarrow> Inl e
      | Inr (eq, others) \<Rightarrow>
          (let iws = (case getProp needs ''items'' of
                        Some (JObj items) \<Rightarrow>
                          (case itemsFromMap items (map fst items) of
                             Inl e \<Rightarrow> None
                           | Inr its \<Rightarrow> Some its)
                      | _ \<Rightarrow> None);
               iws = (if iws = None then
                        (let pairs = parseQuotedPairs combinedMessage in
                         if map fst pairs \<noteq> [] then Some (itemsFromPairs pairs) else iws)
                      else iws);
               iws = (if iws = None \<or> iws = Some [] then
                        (let pairs2 = parseInlineLabelStatus combinedMessage raw in
                         if map fst pairs2 \<noteq> [] then Some (itemsFromPairs pairs2) else iws)
                      else iws)
           in Inr (eq, others, needs, iws)))"

text \<open>Lines 252-268, the branch \<open>else if (eqMatch && eqMatch[1])\<close>.\<close>

definition inferFromText :: "string \<Rightarrow> string list \<times> string option" where
  "inferFromText raw =
     (case searchFirst reqEquipRe None raw of
        None \<Rightarrow> ([], None)
      | Some (pre, m, cs, suf) \<Rightarrow>
          if capture cs 1 = [] then ([], None)
          else
            (let parts = filter (\<lambda>p. p \<noteq> [])
                           (map trim (splitRegex (rPlus (Chr (oneOf '',;''))) (capture cs 1)))
             in case mapTokens parts [] of
                  (mapped, othersFromParts) \<Rightarrow>
                    (filterBoolean mapped,
                     if othersFromParts \<noteq> [] then Some othersFromParts
                     else (case searchFirst othersTailRe None (capture cs 1) of
                             None \<Rightarrow> None
                           | Some (pre', m', cs', suf') \<Rightarrow>
                               if capture cs' 1 = [] then None else Some (trim (capture cs' 1))))))"

definition parseEquipmentAlert :: "alert \<Rightarrow> js_error + parsed_alert" where
  "parseEquipmentAlert a =
     (let combinedMessage = message a @ '' '' @ details a;
          email = (case searchFirst titleEmailRe None (title a) of
                     None \<Rightarrow> None
                   | Some (pre, m, cs, suf) \<Rightarrow> if capture cs 1 = [] then None else Some (capture cs 1))
      in case obtainNeeds a of
           Inl e \<Rightarrow> Inl e
         | Inr (needs, raw) \<Rightarrow>
             (case needs of
                Some v \<Rightarrow>
                  if truthy v then
                    (case inferFromNeeds v raw combinedMessage of
                       Inl e \<Rightarrow> Inl e
                     | Inr (eq, others, needs', iws) \<Rightarrow>
                         Inr (ParsedAlert email (pushAndOthers others eq) others (Some needs') iws))
                  else
                    (case inferFromText raw of
                       (eq, others) \<Rightarrow>
                         Inr (ParsedAlert email (pushAndOthers others eq) others needs None))
              | None \<Rightarrow>
                  (case inferFromText raw of
                     (eq, others) \<Rightarrow>
                       Inr (ParsedAlert email (pushAndOthers others eq) others needs None))))"

section \<open>The display sanitizer\<close>

text \<open>
  \<open>sanitizeDisplayText\<close> (lines 380-421).  The patterns of lines 400 and 407 are
  \<open>(\s-\s[^\n]+)(?:\s-\s[^\n]+){1,}\<close> and \<open>(\b[^\n]{5,200})\s+\1\<close>.  No statement of the body
  throws on a string, so the \<open>catch\<close> branch is never taken.
\<close>

definition dashPart :: regex where
  "dashPart =
     Seq (Chr is_ws) (Seq (ch CHR ''-'') (Seq (Chr is_ws) (rPlus (Chr notNewline))))"

definition dashSep :: regex where
  "dashSep = Seq (Chr is_ws) (Seq (ch CHR ''-'') (Chr is_ws))"

definition dashListRe :: regex where
  "dashListRe = Seq (Grp 1 dashPart) (rPlus dashPart)"

definition repeatedRe :: regex where
  "repeatedRe =
     Seq (Grp 1 (Seq WordB (rBetween 5 200 (Chr notNewline))))
       (Seq (rPlus (Chr is_ws)) (Backref 1))"

text \<open>The callback of line 400: \<open>' ' + m.split(/\s-\s/).map(p => p.trim()).filter(Boolean).join(', ')\<close>.\<close>

definition collapseDashList :: "string \<Rightarrow> string" where
  "collapseDashList m =
     CHR '' '' # joinStr '', '' (filter (\<lambda>p. p \<noteq> []) (map trim (splitRegex dashSep m)))"

definition itemsColonRe :: regex where
  \<open>itemsColonRe =
     Seq (litI ''"items"'') (Seq (rStar (Chr is_ws)) (Seq (ch CHR '':'') (rStar (Chr is_ws))))\<close>

definition itemsColonBareRe :: regex where
  \<open>itemsColonBareRe =
     Seq (litI ''items"'') (Seq (rStar (Chr is_ws)) (Seq (ch CHR '':'') (rStar (Chr is_ws))))\<close>

definition sanitizeDisplayText :: "string \<Rightarrow> string" where
  \<open>sanitizeDisplayText input =
     (let s = unescape input;
          jsonBlocks = map fst (matchGlobal lazyBlockRe s);
          s = removeBlocks jsonBlocks s;
          s = trim (replaceGlobal emailRe (\<lambda>m cs. []) s);
          s = replaceGlobal itemsColonRe (\<lambda>m cs. []) s;
          s = replaceGlobal itemsColonBareRe (\<lambda>m cs. []) s;
          s = replaceGlobal (litI ''"items"'') (\<lambda>m cs. []) s;
          s = replaceGlobal (litI ''items":'') (\<lambda>m cs. []) s;
          s = replaceGlobal dashListRe (\<lambda>m cs. collapseDashList m) s;
          s = replaceGlobal repeatedRe (\<lambda>m cs. capture cs 1) s;
          s = replaceGlobal (Chr (oneOf ''{}[]"'')) (\<lambda>m cs. []) s;
          s = trim (replaceGlobal (rAtLeast 2 (Chr is_ws)) (\<lambda>m cs. '' '') s);
          s = trim (replaceGlobal (Seq (rPlus (Chr (\<lambda>c. oneOf ''-,:;'' c \<or> is_ws c))) Eos)
                      (\<lambda>m cs. []) s)
      in if 300 < length s then slice s 0 300 @ ''...'' else s)\<close>

section \<open>The alert reconciler\<close>

text \<open>
  \<open>alertsData\<close> (lines 625-674).  The viewer is the signed-in user, if any; the three feeds
  are the results of the queries (an unfetched feed is the empty list).
\<close>

datatype user = User
  (uid: string)
  (email: string)
  (role: string)

definition isAdmin :: "user option \<Rightarrow> bool" where
  "isAdmin viewer = (case viewer of None \<Rightarrow> False | Some u \<Rightarrow> role u = ''admin'')"

text \<open>Line 625.\<close>

definition userAlertsFiltered :: "user option \<Rightarrow> alert list \<Rightarrow> alert list" where
  "userAlertsFiltered viewer userAlerts =
     (case viewer of
        None \<Rightarrow> []
      | Some u \<Rightarrow> filter (\<lambda>a. userId a = Some (uid u)) userAlerts)"

text \<open>\<open>String(a.message || a.details || '')\<close>.\<close>

definition messageOrDetails :: "alert \<Rightarrow> string" where
  "messageOrDetails a = (if message a \<noteq> [] then message a else details a)"

text \<open>Lines 636-644: the filter on the cross-scope feed.  An exception of
  \<open>parseEquipmentAlert\<close> is caught and gives \<open>false\<close>.\<close>

definition relevantAlert :: "string \<Rightarrow> alert \<Rightarrow> js_error + bool" where
  "relevantAlert ownerEmail a =
     (let hay = toLowerCase (if messageOrDetails a \<noteq> [] then messageOrDetails a else title a)
      in if ownerEmail \<noteq> [] \<and> includesStr hay ownerEmail then Inr True
         else (case parseEquipmentAlert a of
                 Inl TypeError \<Rightarrow> Inr False
               | Inl Unmodelled \<Rightarrow> Inl Unmodelled
               | Inr parsed \<Rightarrow>
                   (case titleRequesterEmail parsed of
                      None \<Rightarrow> Inr False
                    | Some e \<Rightarrow> Inr (e \<noteq> [] \<and> toLowerCase e = ownerEmail))))"

fun filterRelevant :: "string \<Rightarrow> alert list \<Rightarrow> js_error + alert list" where
  "filterRelevant ownerEmail [] = Inr []"
| "filterRelevant ownerEmail (a # as) =
     (case relevantAlert ownerEmail a of
        Inl e \<Rightarrow> Inl e
      | Inr keep \<Rightarrow>
          (case filterRelevant ownerEmail as of
             Inl e \<Rightarrow> Inl e
           | Inr rs \<Rightarrow> Inr (if keep then a # rs else rs)))"

text \<open>Lines 632-650: the viewer's own alerts and the relevant cross-scope alerts whose id
  is not among them.\<close>

definition baseAlerts :: "user option \<Rightarrow> alert list \<Rightarrow> alert list \<Rightarrow> js_error + alert list" where
  "baseAlerts viewer userAlerts ownerAdminAlerts =
     (let base = userAlertsFiltered viewer userAlerts;
          ownerEmail = toLowerCase (case viewer of None \<Rightarrow> [] | Some u \<Rightarrow> email u)
      in if ownerAdminAlerts \<noteq> [] \<and> ownerEmail \<noteq> [] then
           (case filterRelevant ownerEmail ownerAdminAlerts of
              Inl e \<Rightarrow> Inl e
            | Inr relevant \<Rightarrow>
                Inr (base @ filter (\<lambda>r. alertId r \<notin> set (map alertId base)) relevant))
         else Inr base)"

text \<open>Lines 652-669: the groups, an object keyed by the title, \<open>||\<close> and the first line of
  the message; a key holds \<open>||\<close>, so it is neither an array index nor a property of
  \<open>Object.prototype\<close>, and the object lists its keys in the order of their creation.\<close>

definition firstLine :: "alert \<Rightarrow> string" where
  "firstLine a = trim (takeWhile (\<lambda>c. c \<noteq> CHR 0x0A) (messageOrDetails a))"

definition dedupKey :: "alert \<Rightarrow> string" where
  "dedupKey a = title a @ ''||'' @ firstLine a"

definition addToGroups :: "(string \<times> alert) list \<Rightarrow> alert \<Rightarrow> (string \<times> alert) list" where
  "addToGroups groups a =
     (case map_of groups (dedupKey a) of
        None \<Rightarrow> groups @ [(dedupKey a, a)]
      | Some existing \<Rightarrow>
          if createdAt existing < createdAt a then AList.update (dedupKey a) a groups else groups)"

definition dedupe :: "alert list \<Rightarrow> alert list" where
  "dedupe base = map snd (foldl addToGroups [] base)"

text \<open>Line 670: the stable sort by descending time.\<close>

definition sortNewestFirst :: "alert list \<Rightarrow> alert list" where
  "sortNewestFirst xs = sort_key (\<lambda>a. - createdAt a) xs"

definition alertsData ::
  "user option \<Rightarrow> alert list \<Rightarrow> alert list \<Rightarrow> alert list \<Rightarrow> js_error + alert list" where
  "alertsData viewer adminAlerts userAlerts ownerAdminAlerts =
     (if isAdmin viewer then Inr adminAlerts
      else (case baseAlerts viewer userAlerts ownerAdminAlerts of
              Inl e \<Rightarrow> Inl e
            | Inr base \<Rightarrow> Inr (sortNewestFirst (dedupe base))))"


section \<open>Brace matching, stated by counting\<close>

text \<open>The notions in which the result of \<open>extractJsonAroundKey\<close> is stated: the first
  occurrence of the key, the brace chosen from it, and the closing brace that matches it.
  \<open>braceDepth s\<close> is the number of opening braces of \<open>s\<close> minus the number of its closing
  braces.\<close>

definition firstOccurrence :: "string \<Rightarrow> string \<Rightarrow> nat \<Rightarrow> bool" where
  "firstOccurrence text key idx \<longleftrightarrow>
     idx \<le> length text \<and> prefix key (drop idx text) \<and> (\<forall>j<idx. \<not> prefix key (drop j text))"

definition braceAt :: "string \<Rightarrow> nat \<Rightarrow> bool" where
  "braceAt text i \<longleftrightarrow> i < length text \<and> text ! i = CHR ''{''"

definition chosenOpen :: "string \<Rightarrow> nat \<Rightarrow> nat \<Rightarrow> bool" where
  "chosenOpen text idx opn \<longleftrightarrow>
     braceAt text opn
     \<and> ((idx \<le> opn \<and> (\<forall>j. idx \<le> j \<and> j < opn \<longrightarrow> \<not> braceAt text j))
        \<or> (opn < idx \<and> (\<forall>j. opn < j \<longrightarrow> \<not> braceAt text j)))"

definition braceDepth :: "string \<Rightarrow> int" where
  "braceDepth s = int (count_list s (CHR ''{'')) - int (count_list s (CHR ''}''))"

definition matchingClose :: "string \<Rightarrow> nat \<Rightarrow> nat \<Rightarrow> bool" where
  "matchingClose text opn i \<longleftrightarrow>
     opn \<le> i \<and> i < length text \<and> text ! i = CHR ''}''
     \<and> braceDepth (slice text opn (i + 1)) = 0
     \<and> (\<forall>j. opn \<le> j \<and> j < i \<longrightarrow> 0 < braceDepth (slice text opn (j + 1)))"

text \<open>\<open>closesAt d cs n\<close>: a scan that enters \<open>cs\<close> at depth \<open>d\<close> returns at its position \<open>n\<close>.\<close>

definition closesAt :: "int \<Rightarrow> string \<Rightarrow> nat \<Rightarrow> bool" where
  "closesAt d cs n \<longleftrightarrow>
     n < length cs \<and> cs ! n = CHR ''}'' \<and> d + braceDepth (take (Suc n) cs) = 0
     \<and> (\<forall>m<n. 0 < d + braceDepth (take (Suc m) cs))"

section \<open>The blocks of the lazy pattern, stated directly\<close>

text \<open>The blocks that a scan from left to right finds when a block runs from a \<open>{\<close> to the
  first \<open>}\<close> after it and the scan resumes behind that \<open>}\<close>; a \<open>{\<close> that no \<open>}\<close> follows starts
  no block.\<close>

function lazyBlocks :: "string \<Rightarrow> string list" where
  "lazyBlocks [] = []"
| "lazyBlocks (c # cs) =
     (if c = CHR ''{'' \<and> CHR ''}'' \<in> set cs
      then (c # takeWhile (\<lambda>x. x \<noteq> CHR ''}'') cs @ ''}'')
             # lazyBlocks (tl (dropWhile (\<lambda>x. x \<noteq> CHR ''}'') cs))
      else lazyBlocks cs)"
  by pat_completeness auto
termination
proof (relation "measure length")
  show "wf (measure length)" by simp
next
  fix c :: char and cs :: string
  have "length (tl (dropWhile (\<lambda>x. x \<noteq> CHR ''}'') cs)) \<le> length cs"
    using length_dropWhile_le [of "\<lambda>x. x \<noteq> CHR ''}''" cs] by simp
  then show "(tl (dropWhile (\<lambda>x. x \<noteq> CHR ''}'') cs), c # cs) \<in> measure length"
    by simp
next
  fix c :: char and cs :: string
  show "(cs, c # cs) \<in> measure length" by simp
qed

section \<open>Facts about strings\<close>

lemma indexOf_Some_iff:
  "indexOf s key = Some i \<longleftrightarrow>
     i \<le> length s \<and> prefix key (drop i s) \<and> (\<forall>j<i. \<not> prefix key (drop j s))"
proof (induction s arbitrary: i)
  case Nil
  then show ?case by auto
next
  case (Cons c cs)
  show ?case
  proof (cases "prefix key (c # cs)")
    case True
    then show ?thesis by (cases i) auto
  next
    case False
    show ?thesis
    proof (cases i)
      case 0
      with False show ?thesis by simp
    next
      case (Suc k)
      have "(\<forall>j<Suc k. \<not> prefix key (drop j (c # cs))) \<longleftrightarrow> (\<forall>j<k. \<not> prefix key (drop j cs))"
        using False by (auto simp: less_Suc_eq_0_disj)
      with False Suc Cons.IH [of k] show ?thesis by auto
    qed
  qed
qed

lemma indexOf_None_iff:
  "indexOf s key = None \<longleftrightarrow> (\<forall>j\<le>length s. \<not> prefix key (drop j s))"
proof (induction s)
  case Nil
  then show ?case by auto
next
  case (Cons c cs)
  have "(\<forall>j\<le>length (c # cs). \<not> prefix key (drop j (c # cs))) \<longleftrightarrow>
        \<not> prefix key (c # cs) \<and> (\<forall>j\<le>length cs. \<not> prefix key (drop j cs))"
    (is "?L \<longleftrightarrow> ?R")
  proof
    assume l: ?L
    have "\<not> prefix key (drop j cs)" if "j \<le> length cs" for j
      using l [rule_format, of "Suc j"] that by simp
    moreover have "\<not> prefix key (c # cs)"
      using l [rule_format, of 0] by simp
    ultimately show ?R by blast
  next
    assume r: ?R
    show ?L
    proof (intro allI impI)
      fix j
      assume "j \<le> length (c # cs)"
      then show "\<not> prefix key (drop j (c # cs))"
        using r by (cases j) auto
    qed
  qed
  with Cons show ?case by auto
qed


section \<open>Facts about the token mapper\<close>


























section \<open>Facts about the classifier\<close>




section \<open>Facts about the deduplication\<close>


















section \<open>Facts about the block extractor\<close>

lemma prefix_brace_Cons: "prefix ''{'' (c # t) \<longleftrightarrow> c = CHR ''{''"
proof -
  have "prefix ''{'' (c # t) \<longleftrightarrow> CHR ''{'' = c"
    by (simp only: Cons_prefix_Cons Nil_prefix simp_thms)
  also have "\<dots> \<longleftrightarrow> c = CHR ''{''"
    by (rule eq_commute)
  finally show ?thesis .
qed

lemma prefix_brace_drop: "prefix ''{'' (drop i s) \<longleftrightarrow> braceAt s i"
proof (cases "i < length s")
  case True
  have "drop i s = s ! i # drop (Suc i) s"
    by (rule Cons_nth_drop_Suc [OF True, symmetric])
  then have "prefix ''{'' (drop i s) \<longleftrightarrow> s ! i = CHR ''{''"
    by (simp only: prefix_brace_Cons)
  then show ?thesis using True by (simp add: braceAt_def)
next
  case False
  then show ?thesis by (simp add: braceAt_def)
qed

lemma indexOf_firstOccurrence: "indexOf s key = Some idx \<longleftrightarrow> firstOccurrence s key idx"
  by (simp add: indexOf_Some_iff firstOccurrence_def)

lemma indexOfFrom_brace_Some:
  assumes "idx \<le> length s"
  shows "indexOfFrom s ''{'' idx = Some opn \<longleftrightarrow>
           idx \<le> opn \<and> braceAt s opn \<and> (\<forall>j. idx \<le> j \<and> j < opn \<longrightarrow> \<not> braceAt s j)"
proof
  assume "indexOfFrom s ''{'' idx = Some opn"
  then obtain i where i: "indexOf (drop idx s) ''{'' = Some i" "opn = i + idx"
    by (auto simp: indexOfFrom_def)
  from i(1) have p: "prefix ''{'' (drop i (drop idx s))"
    and m: "\<forall>j<i. \<not> prefix ''{'' (drop j (drop idx s))"
    by (simp_all add: indexOf_Some_iff)
  have "braceAt s opn"
    using p i(2) unfolding drop_drop prefix_brace_drop by simp
  moreover have "\<not> braceAt s j" if "idx \<le> j \<and> j < opn" for j
  proof -
    have "j - idx < i" using that i(2) by arith
    then have "\<not> prefix ''{'' (drop (j - idx) (drop idx s))" using m by blast
    then show ?thesis using that unfolding drop_drop prefix_brace_drop by simp
  qed
  ultimately show "idx \<le> opn \<and> braceAt s opn \<and> (\<forall>j. idx \<le> j \<and> j < opn \<longrightarrow> \<not> braceAt s j)"
    using i(2) by simp
next
  assume r: "idx \<le> opn \<and> braceAt s opn \<and> (\<forall>j. idx \<le> j \<and> j < opn \<longrightarrow> \<not> braceAt s j)"
  let ?i = "opn - idx"
  have "braceAt s (?i + idx)" using r by simp
  then have p: "prefix ''{'' (drop ?i (drop idx s))"
    unfolding drop_drop prefix_brace_drop .
  have l: "?i \<le> length (drop idx s)"
    using r by (auto simp: braceAt_def)
  have m: "\<not> prefix ''{'' (drop j (drop idx s))" if "j < ?i" for j
  proof -
    have "\<not> braceAt s (j + idx)" using r that by simp
    then show ?thesis unfolding drop_drop prefix_brace_drop .
  qed
  have "indexOf (drop idx s) ''{'' = Some ?i"
    unfolding indexOf_Some_iff using p l m by blast
  then show "indexOfFrom s ''{'' idx = Some opn"
    using r by (simp add: indexOfFrom_def)
qed

lemma indexOfFrom_brace_None:
  "indexOfFrom s ''{'' idx = None \<longleftrightarrow> (\<forall>j. idx \<le> j \<longrightarrow> \<not> braceAt s j)"
proof
  assume "indexOfFrom s ''{'' idx = None"
  then have n: "\<forall>j\<le>length (drop idx s). \<not> prefix ''{'' (drop j (drop idx s))"
    by (simp add: indexOfFrom_def indexOf_None_iff)
  show "\<forall>j. idx \<le> j \<longrightarrow> \<not> braceAt s j"
  proof (intro allI impI)
    fix j assume j: "idx \<le> j"
    show "\<not> braceAt s j"
    proof
      assume b: "braceAt s j"
      then have "j - idx \<le> length (drop idx s)" by (auto simp: braceAt_def)
      then have "\<not> prefix ''{'' (drop (j - idx) (drop idx s))" using n by blast
      then show False using b j unfolding drop_drop prefix_brace_drop by simp
    qed
  qed
next
  assume a: "\<forall>j. idx \<le> j \<longrightarrow> \<not> braceAt s j"
  have "\<not> prefix ''{'' (drop j (drop idx s))" for j
    using a [rule_format, of "j + idx"] unfolding drop_drop prefix_brace_drop by simp
  then show "indexOfFrom s ''{'' idx = None"
    by (simp add: indexOfFrom_def indexOf_None_iff)
qed

lemma searchDown_Some:
  "searchDown s key k = Some i \<longleftrightarrow>
     i \<le> k \<and> prefix key (drop i s) \<and> (\<forall>j. i < j \<and> j \<le> k \<longrightarrow> \<not> prefix key (drop j s))"
proof (induction k)
  case 0
  show ?case
  proof (cases "prefix key s")
    case True
    have "\<forall>j::nat. j = 0 \<or> 0 < j" by arith
    with True show ?thesis by (cases i) simp_all
  next
    case False
    then show ?thesis by (cases i) simp_all
  qed
next
  case (Suc k)
  show ?case
  proof (cases "prefix key (drop (Suc k) s)")
    case True
    have "Suc k = i \<longleftrightarrow>
          i \<le> Suc k \<and> prefix key (drop i s) \<and> (\<forall>j. i < j \<and> j \<le> Suc k \<longrightarrow> \<not> prefix key (drop j s))"
    proof
      assume "Suc k = i"
      then show "i \<le> Suc k \<and> prefix key (drop i s) \<and> (\<forall>j. i < j \<and> j \<le> Suc k \<longrightarrow> \<not> prefix key (drop j s))"
        using True by fastforce
    next
      assume a: "i \<le> Suc k \<and> prefix key (drop i s) \<and> (\<forall>j. i < j \<and> j \<le> Suc k \<longrightarrow> \<not> prefix key (drop j s))"
      show "Suc k = i"
      proof (rule ccontr)
        assume "Suc k \<noteq> i"
        then have "i < Suc k \<and> Suc k \<le> Suc k" using a by arith
        then have "\<not> prefix key (drop (Suc k) s)" using a by blast
        then show False using True by blast
      qed
    qed
    then show ?thesis using True by (simp only: searchDown.simps if_True option.inject)
  next
    case False
    have "(\<forall>j. i < j \<and> j \<le> Suc k \<longrightarrow> \<not> prefix key (drop j s))
          \<longleftrightarrow> (\<forall>j. i < j \<and> j \<le> k \<longrightarrow> \<not> prefix key (drop j s))"
      using False by (metis le_Suc_eq)
    moreover have "i \<le> Suc k \<and> prefix key (drop i s) \<longleftrightarrow> i \<le> k \<and> prefix key (drop i s)"
      using False by (metis le_Suc_eq)
    moreover have "searchDown s key (Suc k) = searchDown s key k"
      using False by (simp only: searchDown.simps if_False)
    ultimately show ?thesis
      using Suc by (simp only:) blast
  qed
qed

lemma searchDown_None:
  "searchDown s key k = None \<longleftrightarrow> (\<forall>j\<le>k. \<not> prefix key (drop j s))"
proof (induction k)
  case 0
  show ?case by (cases "prefix key s") simp_all
next
  case (Suc k)
  show ?case
  proof (cases "prefix key (drop (Suc k) s)")
    case True
    then have "searchDown s key (Suc k) = Some (Suc k)"
      by (simp only: searchDown.simps if_True)
    then show ?thesis using True by (metis option.distinct(1) order_refl)
  next
    case False
    then have "searchDown s key (Suc k) = searchDown s key k"
      by (simp only: searchDown.simps if_False)
    then show ?thesis using False Suc by (metis le_Suc_eq)
  qed
qed

lemma lastIndexOf_brace_Some:
  "lastIndexOf s ''{'' idx = Some opn \<longleftrightarrow>
     opn \<le> idx \<and> braceAt s opn \<and> (\<forall>j. opn < j \<and> j \<le> idx \<longrightarrow> \<not> braceAt s j)"
proof (cases "s = []")
  case True
  then show ?thesis by (simp add: lastIndexOf_def braceAt_def)
next
  case False
  let ?k = "min idx (length s - 1)"
  have l: "lastIndexOf s ''{'' idx = searchDown s ''{'' ?k"
    using False by (simp add: lastIndexOf_def Suc_leI)
  have beyond: "\<not> braceAt s j" if "length s - 1 < j" for j
    using that by (auto simp: braceAt_def)
  show ?thesis
    unfolding l searchDown_Some prefix_brace_drop
  proof
    assume a: "opn \<le> ?k \<and> braceAt s opn \<and> (\<forall>j. opn < j \<and> j \<le> ?k \<longrightarrow> \<not> braceAt s j)"
    have "\<not> braceAt s j" if "opn < j \<and> j \<le> idx" for j
    proof (cases "j \<le> length s - 1")
      case True
      then show ?thesis using a that by simp
    next
      case False
      then show ?thesis using beyond by simp
    qed
    then show "opn \<le> idx \<and> braceAt s opn \<and> (\<forall>j. opn < j \<and> j \<le> idx \<longrightarrow> \<not> braceAt s j)"
      using a by simp
  next
    assume a: "opn \<le> idx \<and> braceAt s opn \<and> (\<forall>j. opn < j \<and> j \<le> idx \<longrightarrow> \<not> braceAt s j)"
    then have "opn \<le> length s - 1" by (auto simp: braceAt_def)
    then show "opn \<le> ?k \<and> braceAt s opn \<and> (\<forall>j. opn < j \<and> j \<le> ?k \<longrightarrow> \<not> braceAt s j)"
      using a by simp
  qed
qed

lemma lastIndexOf_brace_None:
  "lastIndexOf s ''{'' idx = None \<longleftrightarrow> (\<forall>j\<le>idx. \<not> braceAt s j)"
proof (cases "s = []")
  case True
  then show ?thesis by (simp add: lastIndexOf_def braceAt_def)
next
  case False
  let ?k = "min idx (length s - 1)"
  have l: "lastIndexOf s ''{'' idx = searchDown s ''{'' ?k"
    using False by (simp add: lastIndexOf_def Suc_leI)
  have beyond: "\<not> braceAt s j" if "length s - 1 < j" for j
    using that by (auto simp: braceAt_def)
  show ?thesis
    unfolding l searchDown_None prefix_brace_drop
  proof
    assume a: "\<forall>j\<le>?k. \<not> braceAt s j"
    show "\<forall>j\<le>idx. \<not> braceAt s j"
    proof (intro allI impI)
      fix j assume "j \<le> idx"
      then show "\<not> braceAt s j"
        using a beyond [of j] by (cases "j \<le> length s - 1") auto
    qed
  next
    assume "\<forall>j\<le>idx. \<not> braceAt s j"
    then show "\<forall>j\<le>?k. \<not> braceAt s j" by simp
  qed
qed


lemma braceDepth_Nil: "braceDepth [] = 0"
  by (simp add: braceDepth_def)

lemma braceDepth_open: "braceDepth (CHR ''{'' # cs) = 1 + braceDepth cs"
  by (simp add: braceDepth_def)

lemma braceDepth_close: "braceDepth (CHR ''}'' # cs) = braceDepth cs - 1"
  by (simp add: braceDepth_def)

lemma braceDepth_other:
  "c \<noteq> CHR ''{'' \<Longrightarrow> c \<noteq> CHR ''}'' \<Longrightarrow> braceDepth (c # cs) = braceDepth cs"
  by (simp add: braceDepth_def)

lemma closesAt_0:
  "closesAt d (c # cs) 0 \<longleftrightarrow> c = CHR ''}'' \<and> d + braceDepth [c] = 0"
  by (auto simp: closesAt_def)

lemma closesAt_Suc:
  "closesAt d (c # cs) (Suc n) \<longleftrightarrow> 0 < d + braceDepth [c] \<and> closesAt (d + braceDepth [c]) cs n"
proof -
  have split: "(\<forall>m<Suc n. Q m) \<longleftrightarrow> Q 0 \<and> (\<forall>m<n. Q (Suc m))" for Q
    by (metis less_Suc_eq_0_disj)
  have cons: "braceDepth (c # xs) = braceDepth [c] + braceDepth xs" for xs
    by (simp add: braceDepth_def)
  show ?thesis
    unfolding closesAt_def split
    by (simp add: cons [of "take k cs" for k] braceDepth_Nil add.assoc) (auto simp: braceDepth_Nil)
qed

lemma matchClose_closesAt:
  "1 \<le> d \<Longrightarrow> matchClose cs i0 d = Some i \<longleftrightarrow> (\<exists>n. i = i0 + n \<and> closesAt d cs n)"
proof (induction cs arbitrary: i0 d)
  case Nil
  then show ?case by (simp add: closesAt_def)
next
  case (Cons c cs)
  have ex: "(\<exists>n. i = i0 + n \<and> closesAt d (c # cs) n)
            \<longleftrightarrow> (i = i0 \<and> closesAt d (c # cs) 0) \<or> (\<exists>n. i = Suc i0 + n \<and> closesAt d (c # cs) (Suc n))"
    (is "?L \<longleftrightarrow> ?R")
  proof
    assume ?L
    then obtain n where n: "i = i0 + n" "closesAt d (c # cs) n" by blast
    show ?R
    proof (cases n)
      case 0
      then show ?thesis using n by simp
    next
      case (Suc k)
      then show ?thesis using n by auto
    qed
  next
    assume ?R
    then show ?L
    proof
      assume "i = i0 \<and> closesAt d (c # cs) 0"
      then have "i = i0 + 0 \<and> closesAt d (c # cs) 0" by simp
      then show ?L by blast
    next
      assume "\<exists>n. i = Suc i0 + n \<and> closesAt d (c # cs) (Suc n)"
      then obtain n where "i = i0 + Suc n \<and> closesAt d (c # cs) (Suc n)" by auto
      then show ?L by blast
    qed
  qed
  consider (opn) "c = CHR ''{''" | (cls) "c = CHR ''}''" | (oth) "c \<noteq> CHR ''{''" "c \<noteq> CHR ''}''"
    by blast
  then show ?case
  proof cases
    case opn
    have bd: "braceDepth [c] = 1" using opn by (simp add: braceDepth_open braceDepth_Nil)
    have "matchClose (c # cs) i0 d = matchClose cs (Suc i0) (d + 1)"
      using opn by simp
    moreover have "1 \<le> d + 1" using Cons.prems by simp
    ultimately have "matchClose (c # cs) i0 d = Some i
          \<longleftrightarrow> (\<exists>n. i = Suc i0 + n \<and> closesAt (d + 1) cs n)"
      using Cons.IH [of "d + 1" "Suc i0"] by simp
    moreover have "\<not> closesAt d (c # cs) 0" using opn by (simp add: closesAt_0)
    moreover have "closesAt d (c # cs) (Suc n) \<longleftrightarrow> closesAt (d + 1) cs n" for n
      using Cons.prems by (simp add: closesAt_Suc bd)
    ultimately show ?thesis unfolding ex by simp
  next
    case cls
    have bd: "braceDepth [c] = - 1" using cls by (simp add: braceDepth_close braceDepth_Nil)
    show ?thesis
    proof (cases "d = 1")
      case True
      have "matchClose (c # cs) i0 d = Some i0" using cls True by simp
      moreover have "closesAt d (c # cs) 0" unfolding closesAt_0 bd using cls True by simp
      moreover have "\<not> closesAt d (c # cs) (Suc n)" for n
        using True by (simp add: closesAt_Suc bd)
      ultimately show ?thesis unfolding ex by auto
    next
      case False
      then have d: "1 \<le> d - 1" using Cons.prems by simp
      have "matchClose (c # cs) i0 d = matchClose cs (Suc i0) (d - 1)"
        using cls False by simp
      then have "matchClose (c # cs) i0 d = Some i
          \<longleftrightarrow> (\<exists>n. i = Suc i0 + n \<and> closesAt (d - 1) cs n)"
        using Cons.IH [OF d, of "Suc i0"] by simp
      moreover have "\<not> closesAt d (c # cs) 0" using False by (simp add: closesAt_0 bd)
      moreover have "closesAt d (c # cs) (Suc n) \<longleftrightarrow> closesAt (d - 1) cs n" for n
        using d by (simp add: closesAt_Suc bd)
      ultimately show ?thesis unfolding ex by simp
    qed
  next
    case oth
    have bd: "braceDepth [c] = 0" using oth by (simp add: braceDepth_other braceDepth_Nil)
    have "matchClose (c # cs) i0 d = matchClose cs (Suc i0) d"
      using oth by simp
    then have "matchClose (c # cs) i0 d = Some i
          \<longleftrightarrow> (\<exists>n. i = Suc i0 + n \<and> closesAt d cs n)"
      using Cons.IH [OF Cons.prems, of "Suc i0"] by simp
    moreover have "\<not> closesAt d (c # cs) 0" using oth by (simp add: closesAt_0)
    moreover have "closesAt d (c # cs) (Suc n) \<longleftrightarrow> closesAt d cs n" for n
      using Cons.prems by (simp add: closesAt_Suc bd)
    ultimately show ?thesis unfolding ex by simp
  qed
qed

lemma matchClose_matchingClose:
  assumes b: "braceAt text opn"
  shows "matchClose (drop opn text) opn 0 = Some i \<longleftrightarrow> matchingClose text opn i"
proof -
  define rest where "rest = drop (Suc opn) text"
  have lt: "opn < length text" and at: "text ! opn = CHR ''{''"
    using b by (simp_all add: braceAt_def)
  have "drop opn text = text ! opn # drop (Suc opn) text"
    by (rule Cons_nth_drop_Suc [OF lt, symmetric])
  then have dr: "drop opn text = CHR ''{'' # rest"
    by (simp only: at rest_def)
  have "Suc (opn + k) - opn = Suc k" for k
    by arith
  then have sl: "slice text opn (Suc (opn + k)) = CHR ''{'' # take k rest" for k
    by (simp only: slice_def dr take_Suc_Cons)
  have depth: "braceDepth (slice text opn (Suc (opn + k))) = 1 + braceDepth (take k rest)" for k
    unfolding sl by (rule braceDepth_open)
  have len: "length rest = length text - Suc opn"
    by (simp add: rest_def)
  have nth: "rest ! n = text ! (Suc opn + n)" if "n < length rest" for n
    using that by (simp add: rest_def)
  have "matchClose (drop opn text) opn 0 = matchClose rest (Suc opn) 1"
    unfolding dr by simp
  then have mc: "matchClose (drop opn text) opn 0 = Some i
      \<longleftrightarrow> (\<exists>n. i = Suc opn + n \<and> closesAt 1 rest n)"
    by (simp add: matchClose_closesAt)
  show ?thesis
    unfolding mc
  proof
    assume "\<exists>n. i = Suc opn + n \<and> closesAt 1 rest n"
    then obtain n where i: "i = Suc opn + n" and c: "closesAt 1 rest n" by blast
    from c have n: "n < length rest" and ch: "rest ! n = CHR ''}''"
      and z: "1 + braceDepth (take (Suc n) rest) = 0"
      and pos: "\<And>m. m < n \<Longrightarrow> 0 < 1 + braceDepth (take (Suc m) rest)"
      by (simp_all add: closesAt_def)
    have "opn \<le> i" using i by simp
    moreover have "i < length text" using i n len by simp
    moreover have "text ! i = CHR ''}''" using nth [OF n] ch i by simp
    moreover have "braceDepth (slice text opn (i + 1)) = 0"
    proof -
      have "i + 1 = Suc (opn + Suc n)" using i by simp
      then show ?thesis using depth [of "Suc n"] z by (simp only:)
    qed
    moreover have "0 < braceDepth (slice text opn (j + 1))" if "opn \<le> j \<and> j < i" for j
    proof (cases "j = opn")
      case True
      then have "j + 1 = Suc (opn + 0)" by simp
      then show ?thesis using depth [of 0] by (simp only: take_0 braceDepth_Nil)
    next
      case False
      define m where "m = j - Suc opn"
      have m: "j = Suc opn + m" "m < n"
        unfolding m_def using False that i by arith+
      have "j + 1 = Suc (opn + Suc m)" using m(1) by simp
      then show ?thesis using depth [of "Suc m"] pos [OF m(2)] by (simp only:)
    qed
    ultimately show "matchingClose text opn i"
      by (simp add: matchingClose_def)
  next
    assume m: "matchingClose text opn i"
    then have le: "opn \<le> i" and li: "i < length text" and ch: "text ! i = CHR ''}''"
      and z: "braceDepth (slice text opn (i + 1)) = 0"
      and pos: "\<And>j. opn \<le> j \<and> j < i \<Longrightarrow> 0 < braceDepth (slice text opn (j + 1))"
      by (simp_all add: matchingClose_def)
    have "CHR ''}'' \<noteq> CHR ''{''" by simp
    then have "i \<noteq> opn" using ch at by metis
    define n where "n = i - Suc opn"
    have i: "i = Suc opn + n"
      using le \<open>i \<noteq> opn\<close> by (simp add: n_def)
    have n: "n < length rest" using li i len by simp
    have "rest ! n = CHR ''}''" using nth [OF n] ch i by simp
    moreover have "1 + braceDepth (take (Suc n) rest) = 0"
    proof -
      have "i + 1 = Suc (opn + Suc n)" using i by simp
      then show ?thesis using depth [of "Suc n"] z by (simp only:)
    qed
    moreover have "0 < 1 + braceDepth (take (Suc k) rest)" if "k < n" for k
    proof -
      have "opn \<le> Suc opn + k \<and> Suc opn + k < i" using that i by simp
      then have "0 < braceDepth (slice text opn (Suc opn + k + 1))" by (rule pos)
      moreover have "Suc opn + k + 1 = Suc (opn + Suc k)" by simp
      ultimately show ?thesis using depth [of "Suc k"] by (simp only:)
    qed
    ultimately have "closesAt 1 rest n"
      using n by (simp add: closesAt_def)
    then show "\<exists>n. i = Suc opn + n \<and> closesAt 1 rest n"
      using i by blast
  qed
qed

lemma chosenOpen_iff:
  assumes "idx \<le> length text"
  shows "(case indexOfFrom text ''{'' idx of Some opn \<Rightarrow> Some opn
          | None \<Rightarrow> lastIndexOf text ''{'' idx) = Some opn \<longleftrightarrow> chosenOpen text idx opn"
proof (cases "indexOfFrom text ''{'' idx")
  case None
  then have none: "\<And>j. idx \<le> j \<Longrightarrow> \<not> braceAt text j"
    by (simp add: indexOfFrom_brace_None)
  have "lastIndexOf text ''{'' idx = Some opn \<longleftrightarrow> chosenOpen text idx opn"
    unfolding lastIndexOf_brace_Some chosenOpen_def
  proof
    assume a: "opn \<le> idx \<and> braceAt text opn \<and> (\<forall>j. opn < j \<and> j \<le> idx \<longrightarrow> \<not> braceAt text j)"
    then have "opn \<noteq> idx" using none [of idx] by auto
    then have "opn < idx" using a by simp
    moreover have "\<not> braceAt text j" if "opn < j" for j
      using a none [of j] that by (cases "j \<le> idx") simp_all
    ultimately show "braceAt text opn
       \<and> (idx \<le> opn \<and> (\<forall>j. idx \<le> j \<and> j < opn \<longrightarrow> \<not> braceAt text j)
          \<or> opn < idx \<and> (\<forall>j. opn < j \<longrightarrow> \<not> braceAt text j))"
      using a by simp
  next
    assume a: "braceAt text opn
       \<and> (idx \<le> opn \<and> (\<forall>j. idx \<le> j \<and> j < opn \<longrightarrow> \<not> braceAt text j)
          \<or> opn < idx \<and> (\<forall>j. opn < j \<longrightarrow> \<not> braceAt text j))"
    then have "\<not> idx \<le> opn" using none [of opn] by blast
    then show "opn \<le> idx \<and> braceAt text opn \<and> (\<forall>j. opn < j \<and> j \<le> idx \<longrightarrow> \<not> braceAt text j)"
      using a by simp
  qed
  then show ?thesis using None by simp
next
  case (Some o1)
  then have o1: "idx \<le> o1" "braceAt text o1" "\<And>j. idx \<le> j \<and> j < o1 \<Longrightarrow> \<not> braceAt text j"
    by (simp_all add: indexOfFrom_brace_Some [OF assms])
  have "o1 = opn \<longleftrightarrow> chosenOpen text idx opn"
  proof
    assume "o1 = opn"
    then show "chosenOpen text idx opn"
      using o1 by (simp add: chosenOpen_def)
  next
    assume c: "chosenOpen text idx opn"
    then have b: "braceAt text opn" by (simp add: chosenOpen_def)
    from c consider (after) "idx \<le> opn" "\<And>j. idx \<le> j \<and> j < opn \<Longrightarrow> \<not> braceAt text j"
      | (before) "opn < idx" "\<And>j. opn < j \<Longrightarrow> \<not> braceAt text j"
      unfolding chosenOpen_def by blast
    then show "o1 = opn"
    proof cases
      case after
      have "\<not> o1 < opn" using after(2) [of o1] o1(1,2) by blast
      moreover have "\<not> opn < o1" using o1(3) [of opn] after(1) b by blast
      ultimately show ?thesis by simp
    next
      case before
      then have "\<not> braceAt text o1" using o1(1) by simp
      then show ?thesis using o1(2) by simp
    qed
  qed
  then show ?thesis using Some by simp
qed

lemma extractJsonAroundKey_Some_iff:
  "extractJsonAroundKey text key = Some blk \<longleftrightarrow>
     (\<exists>idx opn i. firstOccurrence text key idx \<and> chosenOpen text idx opn
        \<and> matchingClose text opn i \<and> blk = slice text opn (i + 1))"
proof (cases "indexOf text key")
  case None
  then have "\<not> firstOccurrence text key idx" for idx
    by (simp add: indexOf_firstOccurrence [symmetric])
  then show ?thesis using None by (simp add: extractJsonAroundKey_def)
next
  case (Some idx)
  then have f: "firstOccurrence text key j \<longleftrightarrow> j = idx" for j
    by (auto simp: indexOf_firstOccurrence [symmetric])
  have le: "idx \<le> length text"
    using f [of idx] by (simp add: firstOccurrence_def)
  note ch = chosenOpen_iff [OF le]
  show ?thesis
  proof (cases "case indexOfFrom text ''{'' idx of Some opn \<Rightarrow> Some opn
                | None \<Rightarrow> lastIndexOf text ''{'' idx")
    case None
    then have "\<not> chosenOpen text idx opn" for opn
      using ch [of opn] by simp
    then show ?thesis using Some None by (simp add: extractJsonAroundKey_def f)
  next
    case o: (Some opn)
    then have c: "chosenOpen text idx j \<longleftrightarrow> j = opn" for j
      using ch [of j] by auto
    have b: "braceAt text opn"
      using c [of opn] by (simp add: chosenOpen_def)
    note mc = matchClose_matchingClose [OF b]
    show ?thesis
    proof (cases "matchClose (drop opn text) opn 0")
      case None
      then have "\<not> matchingClose text opn i" for i
        using mc [of i] by simp
      then show ?thesis using Some o None by (simp add: extractJsonAroundKey_def f c)
    next
      case m: (Some i)
      then have "matchingClose text opn j \<longleftrightarrow> j = i" for j
        using mc [of j] by auto
      then show ?thesis using Some o m by (auto simp: extractJsonAroundKey_def f c)
    qed
  qed
qed

section \<open>Facts about the top-level blocks\<close>

lemma ms_lazy_any_Nil:
  "ms (rLazyStar (Chr anyChar)) \<lparr>prevChar = p, remaining = [], captured = cap\<rparr>
     = [\<lparr>prevChar = p, remaining = [], captured = cap\<rparr>]"
  unfolding rLazyStar_def
  by (subst ms.simps(5)) (simp add: ms.simps(1) del: ms.simps(5))

lemma ms_lazy_any_Cons:
  "ms (rLazyStar (Chr anyChar)) \<lparr>prevChar = p, remaining = c # cs, captured = cap\<rparr>
     = \<lparr>prevChar = p, remaining = c # cs, captured = cap\<rparr>
       # ms (rLazyStar (Chr anyChar)) \<lparr>prevChar = Some c, remaining = cs, captured = cap\<rparr>"
  unfolding rLazyStar_def
  by (subst ms.simps(5)) (simp add: ms.simps(1) anyChar_def del: ms.simps(5))

lemma ms_close_Nil:
  "ms (ch CHR ''}'') \<lparr>prevChar = p, remaining = [], captured = cap\<rparr> = []"
  by (simp add: ch_def)

lemma ms_close_Cons:
  "ms (ch CHR ''}'') \<lparr>prevChar = p, remaining = c # cs, captured = cap\<rparr>
     = (if c = CHR ''}'' then [\<lparr>prevChar = Some c, remaining = cs, captured = cap\<rparr>] else [])"
  by (simp add: ch_def)

lemma ms_lazy_tail_none:
  "CHR ''}'' \<notin> set s \<Longrightarrow>
     ms (Seq (rLazyStar (Chr anyChar)) (ch CHR ''}'')) \<lparr>prevChar = p, remaining = s, captured = cap\<rparr> = []"
proof (induction s arbitrary: p)
  case Nil
  show ?case by (simp only: ms.simps(3) ms_lazy_any_Nil ms_close_Nil list.map concat.simps append_Nil)
next
  case (Cons c cs)
  then have c: "c \<noteq> CHR ''}''" and cs: "CHR ''}'' \<notin> set cs" by auto
  have "ms (Seq (rLazyStar (Chr anyChar)) (ch CHR ''}'')) \<lparr>prevChar = p, remaining = c # cs, captured = cap\<rparr>
        = ms (ch CHR ''}'') \<lparr>prevChar = p, remaining = c # cs, captured = cap\<rparr>
          @ ms (Seq (rLazyStar (Chr anyChar)) (ch CHR ''}'')) \<lparr>prevChar = Some c, remaining = cs, captured = cap\<rparr>"
    by (simp only: ms.simps(3) ms_lazy_any_Cons list.map concat.simps)
  then show ?case
    using c Cons.IH [OF cs] by (simp only: ms_close_Cons if_False append_Nil)
qed

lemma ms_lazy_tail_first:
  "CHR ''}'' \<in> set s \<Longrightarrow>
     \<exists>more. ms (Seq (rLazyStar (Chr anyChar)) (ch CHR ''}''))
              \<lparr>prevChar = p, remaining = s, captured = cap\<rparr>
        = \<lparr>prevChar = Some CHR ''}'', remaining = tl (dropWhile (\<lambda>x. x \<noteq> CHR ''}'') s),
            captured = cap\<rparr> # more"
proof (induction s arbitrary: p)
  case Nil
  then show ?case by simp
next
  case (Cons c cs)
  have step: "ms (Seq (rLazyStar (Chr anyChar)) (ch CHR ''}'')) \<lparr>prevChar = p, remaining = c # cs, captured = cap\<rparr>
        = ms (ch CHR ''}'') \<lparr>prevChar = p, remaining = c # cs, captured = cap\<rparr>
          @ ms (Seq (rLazyStar (Chr anyChar)) (ch CHR ''}'')) \<lparr>prevChar = Some c, remaining = cs, captured = cap\<rparr>"
    by (simp only: ms.simps(3) ms_lazy_any_Cons list.map concat.simps)
  show ?case
  proof (cases "c = CHR ''}''")
    case True
    then show ?thesis unfolding step ms_close_Cons by simp
  next
    case False
    then have "CHR ''}'' \<in> set cs" using Cons.prems by simp
    from Cons.IH [OF this, of "Some c"] False show ?thesis
      unfolding step ms_close_Cons by simp
  qed
qed


lemma split_at_first:
  assumes "x \<in> set cs"
  shows "\<exists>tw r. cs = tw @ x # r \<and> takeWhile (\<lambda>y. y \<noteq> x) cs = tw
           \<and> dropWhile (\<lambda>y. y \<noteq> x) cs = x # r"
proof -
  from split_list_first [OF assms] obtain tw r where c: "cs = tw @ x # r" and n: "x \<notin> set tw"
    by blast
  have all: "\<And>y. y \<in> set tw \<Longrightarrow> y \<noteq> x" using n by blast
  have "takeWhile (\<lambda>y. y \<noteq> x) cs = tw"
    unfolding c using all by (simp add: takeWhile_append2)
  moreover have "dropWhile (\<lambda>y. y \<noteq> x) cs = x # r"
    unfolding c using all by (simp add: dropWhile_append2)
  ultimately show ?thesis using c by blast
qed

lemma matchAt_lazyBlockRe_Nil: "matchAt lazyBlockRe p [] = None"
  by (simp add: matchAt_def lazyBlockRe_def ch_def)

lemma matchAt_lazyBlockRe_Cons:
  "matchAt lazyBlockRe p (c # cs) =
     (if c = CHR ''{'' \<and> CHR ''}'' \<in> set cs
      then Some (c # takeWhile (\<lambda>x. x \<noteq> CHR ''}'') cs @ ''}'',
                 [(1, c # takeWhile (\<lambda>x. x \<noteq> CHR ''}'') cs @ ''}'')])
      else None)"
proof -
  let ?T = "Seq (rLazyStar (Chr anyChar)) (ch CHR ''}'')"
  let ?st = "\<lparr>prevChar = p, remaining = c # cs, captured = []\<rparr>"
  have opn: "ms (Seq (ch CHR ''{'') ?T) ?st
      = (if c = CHR ''{'' then ms ?T \<lparr>prevChar = Some c, remaining = cs, captured = []\<rparr> else [])"
  proof -
    have "ms (Seq (ch CHR ''{'') ?T) ?st = concat (map (ms ?T) (ms (ch CHR ''{'') ?st))"
      by (rule ms.simps(3))
    moreover have "ms (ch CHR ''{'') ?st
        = (if c = CHR ''{'' then [\<lparr>prevChar = Some c, remaining = cs, captured = []\<rparr>] else [])"
      by (simp add: ch_def)
    ultimately show ?thesis
      by (simp del: ms.simps(3,5))
  qed
  have grp: "ms lazyBlockRe ?st
      = map (\<lambda>st'. st'\<lparr>captured := (1, take (length (c # cs) - length (remaining st')) (c # cs))
                                     # captured st'\<rparr>)
          (ms (Seq (ch CHR ''{'') ?T) ?st)"
    unfolding lazyBlockRe_def by (simp del: ms.simps(3,5))
  show ?thesis
  proof (cases "c = CHR ''{'' \<and> CHR ''}'' \<in> set cs")
    case False
    then have "ms (Seq (ch CHR ''{'') ?T) ?st = []"
      unfolding opn using ms_lazy_tail_none [of cs "Some c" "[]"] by auto
    then have "ms lazyBlockRe ?st = []" unfolding grp by simp
    then show ?thesis using False by (simp add: matchAt_def)
  next
    case True
    then have mem: "CHR ''}'' \<in> set cs" and c: "c = CHR ''{''" by simp_all
    from split_at_first [OF mem] obtain tw r where
      cs: "cs = tw @ CHR ''}'' # r" and tw: "takeWhile (\<lambda>y. y \<noteq> CHR ''}'') cs = tw"
      and dw: "dropWhile (\<lambda>y. y \<noteq> CHR ''}'') cs = CHR ''}'' # r"
      by blast
    from ms_lazy_tail_first [OF mem, of "Some c" "[]"] obtain more where
      "ms ?T \<lparr>prevChar = Some c, remaining = cs, captured = []\<rparr>
         = \<lparr>prevChar = Some CHR ''}'', remaining = r, captured = []\<rparr> # more"
      unfolding dw by auto
    then have "ms (Seq (ch CHR ''{'') ?T) ?st
         = \<lparr>prevChar = Some CHR ''}'', remaining = r, captured = []\<rparr> # more"
      unfolding opn using c by simp
    then have "\<exists>more'. ms lazyBlockRe ?st
         = \<lparr>prevChar = Some CHR ''}'', remaining = r,
             captured = [(1, take (length (c # cs) - length r) (c # cs))]\<rparr> # more'"
      unfolding grp by simp
    then obtain more' where m: "ms lazyBlockRe ?st
         = \<lparr>prevChar = Some CHR ''}'', remaining = r,
             captured = [(1, take (length (c # cs) - length r) (c # cs))]\<rparr> # more'"
      by blast
    have "length (c # cs) - length r = Suc (Suc (length tw))"
      unfolding cs by simp
    then have tk: "take (length (c # cs) - length r) (c # cs) = c # tw @ ''}''"
      unfolding cs by simp
    show ?thesis
      using True tk tw unfolding matchAt_def m by simp
  qed
qed

lemma matchG_lazyBlockRe:
  "k \<le> length s \<Longrightarrow>
     matchG lazyBlockRe p k s = map (\<lambda>b. (b, [(1, b)])) (lazyBlocks (drop k s))"
proof (induction s arbitrary: p k)
  case Nil
  then show ?case by (simp add: matchAt_lazyBlockRe_Nil)
next
  case (Cons c s)
  show ?case
  proof (cases "0 < k")
    case True
    then obtain j where k: "k = Suc j" by (cases k) simp_all
    then have "j \<le> length s" using Cons.prems by simp
    from Cons.IH [OF this, of "Some c"] show ?thesis
      unfolding k by simp
  next
    case False
    then have k: "k = 0" by simp
    show ?thesis
    proof (cases "c = CHR ''{'' \<and> CHR ''}'' \<in> set s")
      case False
      then have "matchAt lazyBlockRe p (c # s) = None"
        by (simp only: matchAt_lazyBlockRe_Cons if_False)
      then have "matchG lazyBlockRe p k (c # s) = matchG lazyBlockRe (Some c) 0 s"
        unfolding k by simp
      moreover have "lazyBlocks (c # s) = lazyBlocks s"
        using False by (simp only: lazyBlocks.simps if_False)
      ultimately show ?thesis
        using Cons.IH [of 0 "Some c"] unfolding k by simp
    next
      case True
      then have mem: "CHR ''}'' \<in> set s" by simp
      let ?B = "c # takeWhile (\<lambda>x. x \<noteq> CHR ''}'') s @ ''}''"
      from split_at_first [OF mem] obtain tw r where
        s: "s = tw @ CHR ''}'' # r" and tw: "takeWhile (\<lambda>y. y \<noteq> CHR ''}'') s = tw"
        and dw: "dropWhile (\<lambda>y. y \<noteq> CHR ''}'') s = CHR ''}'' # r"
        by blast
      have "matchAt lazyBlockRe p (c # s) = Some (?B, [(1, ?B)])"
        using True by (simp only: matchAt_lazyBlockRe_Cons simp_thms if_True)
      then have a: "matchG lazyBlockRe p k (c # s)
          = (?B, [(1, ?B)]) # matchG lazyBlockRe (Some c) (length ?B - 1) s"
        unfolding k by simp
      have len: "length ?B - 1 = Suc (length tw)" unfolding tw by simp
      have le: "Suc (length tw) \<le> length s" unfolding s by simp
      have dr: "drop (Suc (length tw)) s = r" unfolding s by simp
      have b: "lazyBlocks (c # s) = ?B # lazyBlocks r"
        using True unfolding lazyBlocks.simps dw by simp
      show ?thesis
        unfolding a len Cons.IH [OF le] dr using b unfolding k by simp
    qed
  qed
qed

lemma jsonBlocksOf_lazyBlocks: "jsonBlocksOf raw = lazyBlocks raw"
  by (simp add: jsonBlocksOf_def matchGlobal_def matchG_lazyBlockRe capture_def comp_def)


lemma lazyBlocks_shape:
  "b \<in> set (lazyBlocks s) \<Longrightarrow> \<exists>body. b = CHR ''{'' # body @ ''}'' \<and> CHR ''}'' \<notin> set body"
proof (induction s rule: lazyBlocks.induct)
  case 1
  then show ?case by simp
next
  case (2 c cs)
  show ?case
  proof (cases "c = CHR ''{'' \<and> CHR ''}'' \<in> set cs")
    case False
    then have "lazyBlocks (c # cs) = lazyBlocks cs"
      by (simp only: lazyBlocks.simps if_False)
    then show ?thesis using 2 False by simp
  next
    case True
    let ?tw = "takeWhile (\<lambda>x. x \<noteq> CHR ''}'') cs"
    have eq: "lazyBlocks (c # cs)
        = (c # ?tw @ ''}'') # lazyBlocks (tl (dropWhile (\<lambda>x. x \<noteq> CHR ''}'') cs))"
      using True by (simp only: lazyBlocks.simps simp_thms if_True)
    have body: "CHR ''}'' \<notin> set ?tw"
      using set_takeWhileD [of "CHR ''}''" "\<lambda>x. x \<noteq> CHR ''}''" cs] by blast
    from "2.prems" consider "b = c # ?tw @ ''}''"
      | "b \<in> set (lazyBlocks (tl (dropWhile (\<lambda>x. x \<noteq> CHR ''}'') cs)))"
      unfolding eq by auto
    then show ?thesis
    proof cases
      case 1
      then show ?thesis using True body by blast
    next
      case 2
      then show ?thesis using "2.IH"(1) [OF True] by blast
    qed
  qed
qed

lemma parseMembers_object:
  "parseMembers n acc s = POk v r \<Longrightarrow> \<exists>kvs. v = JObj kvs"
proof (induction n arbitrary: acc s)
  case 0
  then show ?case by simp
next
  case (Suc n)
  from Suc.prems show ?case
    by (auto split: list.splits if_splits pres.splits dest: Suc.IH)
qed

lemma parseValue_brace_object:
  assumes "parseValue n (CHR ''{'' # cs) = POk v r"
  shows "\<exists>kvs. v = JObj kvs"
proof (cases n)
  case 0
  then show ?thesis using assms by simp
next
  case (Suc m)
  have "skipWs (CHR ''{'' # cs) = CHR ''{'' # cs"
    by (simp add: skipWs_def jsonWs_def oneOf_def)
  then show ?thesis
    using assms unfolding Suc
    by (auto split: list.splits if_splits dest: parseMembers_object)
qed

lemma JSON_parse_brace_object:
  "JSON_parse (CHR ''{'' # cs) = Parsed v \<Longrightarrow> \<exists>kvs. v = JObj kvs"
proof -
  assume a: "JSON_parse (CHR ''{'' # cs) = Parsed v"
  define n where "n = Suc (length (CHR ''{'' # cs))"
  have p: "(case parseValue n (CHR ''{'' # cs) of
              POk v r \<Rightarrow> if skipWs r = [] then Parsed v else SyntaxError
            | PErr \<Rightarrow> SyntaxError
            | PUnm \<Rightarrow> OutsideModel) = Parsed v"
    using a unfolding JSON_parse_def n_def .
  show ?thesis
  proof (cases "parseValue n (CHR ''{'' # cs)")
    case (POk w r)
    then have "w = v" using p by (simp split: if_splits)
    then show ?thesis using parseValue_brace_object [OF POk] by simp
  next
    case PErr
    then show ?thesis using p by simp
  next
    case PUnm
    then show ?thesis using p by simp
  qed
qed

lemma firstParsed_Some_iff:
  assumes "\<And>b w. b \<in> set blocks \<Longrightarrow> JSON_parse b = Parsed w \<Longrightarrow> isObject w \<and> truthy w"
  shows "firstParsed blocks = Inr (Some v) \<longleftrightarrow>
     (\<exists>pre b post. blocks = pre @ b # post \<and> JSON_parse b = Parsed v
        \<and> (\<forall>x\<in>set pre. JSON_parse x = SyntaxError))"
  using assms
proof (induction blocks)
  case Nil
  then show ?case by simp
next
  case (Cons a bs)
  have ih: "firstParsed bs = Inr (Some v) \<longleftrightarrow>
     (\<exists>pre b post. bs = pre @ b # post \<and> JSON_parse b = Parsed v
        \<and> (\<forall>x\<in>set pre. JSON_parse x = SyntaxError))"
  proof (rule Cons.IH)
    fix b w
    assume "b \<in> set bs" "JSON_parse b = Parsed w"
    then show "isObject w \<and> truthy w" using Cons.prems [of b w] by simp
  qed
  let ?R = "\<exists>pre b post. a # bs = pre @ b # post \<and> JSON_parse b = Parsed v
        \<and> (\<forall>x\<in>set pre. JSON_parse x = SyntaxError)"
  have split: "?R \<longleftrightarrow> JSON_parse a = Parsed v
      \<or> (JSON_parse a = SyntaxError
          \<and> (\<exists>pre b post. bs = pre @ b # post \<and> JSON_parse b = Parsed v
                \<and> (\<forall>x\<in>set pre. JSON_parse x = SyntaxError)))"
  proof
    assume ?R
    then obtain pre b post where d: "a # bs = pre @ b # post" "JSON_parse b = Parsed v"
      "\<forall>x\<in>set pre. JSON_parse x = SyntaxError" by blast
    show "JSON_parse a = Parsed v
      \<or> (JSON_parse a = SyntaxError
          \<and> (\<exists>pre b post. bs = pre @ b # post \<and> JSON_parse b = Parsed v
                \<and> (\<forall>x\<in>set pre. JSON_parse x = SyntaxError)))"
    proof (cases pre)
      case Nil
      then show ?thesis using d by simp
    next
      case (Cons x pre')
      then have "a = x" "bs = pre' @ b # post" using d(1) by simp_all
      moreover have "JSON_parse x = SyntaxError" "\<forall>y\<in>set pre'. JSON_parse y = SyntaxError"
        using d(3) Cons by simp_all
      ultimately show ?thesis using d(2) by blast
    qed
  next
    assume "JSON_parse a = Parsed v
      \<or> (JSON_parse a = SyntaxError
          \<and> (\<exists>pre b post. bs = pre @ b # post \<and> JSON_parse b = Parsed v
                \<and> (\<forall>x\<in>set pre. JSON_parse x = SyntaxError)))"
    then show ?R
    proof
      assume "JSON_parse a = Parsed v"
      then have "a # bs = [] @ a # bs \<and> JSON_parse a = Parsed v
          \<and> (\<forall>x\<in>set []. JSON_parse x = SyntaxError)" by simp
      then show ?R by blast
    next
      assume "JSON_parse a = SyntaxError
          \<and> (\<exists>pre b post. bs = pre @ b # post \<and> JSON_parse b = Parsed v
                \<and> (\<forall>x\<in>set pre. JSON_parse x = SyntaxError))"
      then obtain pre b post where d: "JSON_parse a = SyntaxError" "bs = pre @ b # post"
        "JSON_parse b = Parsed v" "\<forall>x\<in>set pre. JSON_parse x = SyntaxError" by blast
      then have "a # bs = (a # pre) @ b # post \<and> JSON_parse b = Parsed v
          \<and> (\<forall>x\<in>set (a # pre). JSON_parse x = SyntaxError)" by simp
      then show ?R by blast
    qed
  qed
  show ?case
  proof (cases "JSON_parse a")
    case (Parsed w)
    then have "isObject w \<and> truthy w" using Cons.prems [of a w] by simp
    then have "firstParsed (a # bs) = Inr (Some w)" using Parsed by simp
    then show ?thesis unfolding split using Parsed by auto
  next
    case SyntaxError
    then have "firstParsed (a # bs) = firstParsed bs" by simp
    then show ?thesis unfolding split using SyntaxError ih by simp
  next
    case OutsideModel
    then have "firstParsed (a # bs) = Inl Unmodelled" by simp
    then show ?thesis unfolding split using OutsideModel by simp
  qed
qed

lemma firstParsed_all_fail:
  "(\<And>b. b \<in> set blocks \<Longrightarrow> JSON_parse b = SyntaxError) \<Longrightarrow> firstParsed blocks = Inr None"
  by (induction blocks) simp_all

lemma lazyBlocks_parse_object:
  assumes "b \<in> set (lazyBlocks raw)" and "JSON_parse b = Parsed w"
  shows "\<exists>kvs. w = JObj kvs"
proof -
  from lazyBlocks_shape [OF assms(1)] obtain body where "b = CHR ''{'' # body @ ''}''"
    by blast
  then show ?thesis using assms(2) JSON_parse_brace_object by blast
qed

section \<open>Claims\<close>

text \<open>
  C1, as amended.  \<open>extractJsonAroundKey\<close> returns a block exactly when the key occurs in
  the text, a brace is chosen from its first occurrence (the first \<open>{\<close> at or after it,
  else the last \<open>{\<close> before it) and that brace has a matching \<open>}\<close>: the first \<open>}\<close> after it
  at which the count of braces returns to zero.  The block is the substring from the
  chosen brace to the matching one, both included.  In every other case, and so whenever
  the key is absent, the result is null.
\<close>

theorem extractJsonAroundKey_brace_matching:
  "(extractJsonAroundKey text key = Some blk \<longleftrightarrow>
      (\<exists>idx opn i. firstOccurrence text key idx \<and> chosenOpen text idx opn
         \<and> matchingClose text opn i \<and> blk = slice text opn (i + 1)))
   \<and> (extractJsonAroundKey text key = None \<longleftrightarrow>
        (\<forall>idx opn i. firstOccurrence text key idx \<and> chosenOpen text idx opn
           \<longrightarrow> \<not> matchingClose text opn i))
   \<and> (\<not> includesStr text key \<longrightarrow> extractJsonAroundKey text key = None)"
proof (intro conjI)
  show "extractJsonAroundKey text key = Some blk \<longleftrightarrow>
      (\<exists>idx opn i. firstOccurrence text key idx \<and> chosenOpen text idx opn
         \<and> matchingClose text opn i \<and> blk = slice text opn (i + 1))"
    by (rule extractJsonAroundKey_Some_iff)
  have "extractJsonAroundKey text key = None
        \<longleftrightarrow> (\<forall>b. extractJsonAroundKey text key \<noteq> Some b)"
    by (cases "extractJsonAroundKey text key") simp_all
  then show "extractJsonAroundKey text key = None \<longleftrightarrow>
        (\<forall>idx opn i. firstOccurrence text key idx \<and> chosenOpen text idx opn
           \<longrightarrow> \<not> matchingClose text opn i)"
    unfolding extractJsonAroundKey_Some_iff by blast
  show "\<not> includesStr text key \<longrightarrow> extractJsonAroundKey text key = None"
    by (simp add: includesStr_def extractJsonAroundKey_def)
qed

text \<open>The theorem at the example of the specification, where the brace is found after the
  key, at a text whose only brace is before the key, and at a text with no closing brace.\<close>

theorem extractJsonAroundKey_brace_matching_witness:
  \<open>(\<exists>idx opn i. firstOccurrence ''prefix {"items":{"a":{"b":1}}} suffix'' ''"items"'' idx
       \<and> chosenOpen ''prefix {"items":{"a":{"b":1}}} suffix'' idx opn
       \<and> matchingClose ''prefix {"items":{"a":{"b":1}}} suffix'' opn i
       \<and> ''{"a":{"b":1}}'' = slice ''prefix {"items":{"a":{"b":1}}} suffix'' opn (i + 1))
   \<and> (\<exists>idx opn i. firstOccurrence ''{"a":1} items'' ''items'' idx
       \<and> chosenOpen ''{"a":1} items'' idx opn
       \<and> matchingClose ''{"a":1} items'' opn i
       \<and> ''{"a":1}'' = slice ''{"a":1} items'' opn (i + 1))
   \<and> extractJsonAroundKey ''items {"a":1'' ''items'' = None
   \<and> \<not> (\<exists>idx opn i. firstOccurrence ''items {"a":1'' ''items'' idx
         \<and> chosenOpen ''items {"a":1'' idx opn \<and> matchingClose ''items {"a":1'' opn i)\<close>
proof -
  have e1: \<open>extractJsonAroundKey ''prefix {"items":{"a":{"b":1}}} suffix'' ''"items"''
              = Some ''{"a":{"b":1}}''\<close>
    by code_simp
  have e2: \<open>extractJsonAroundKey ''{"a":1} items'' ''items'' = Some ''{"a":1}''\<close>
    by code_simp
  have e3: \<open>extractJsonAroundKey ''items {"a":1'' ''items'' = None\<close>
    by code_simp
  note t1 = extractJsonAroundKey_brace_matching
    [of \<open>''prefix {"items":{"a":{"b":1}}} suffix''\<close> \<open>''"items"''\<close> \<open>''{"a":{"b":1}}''\<close>]
  note t2 = extractJsonAroundKey_brace_matching
    [of \<open>''{"a":1} items''\<close> \<open>''items''\<close> \<open>''{"a":1}''\<close>]
  note t3 = extractJsonAroundKey_brace_matching
    [of \<open>''items {"a":1''\<close> \<open>''items''\<close> \<open>[]\<close>]
  note w1 = iffD1 [OF conjunct1 [OF t1] e1]
  note w2 = iffD1 [OF conjunct1 [OF t2] e2]
  have none: "\<not> (\<exists>a b c. P a \<and> Q a b \<and> R b c)"
    if "\<forall>a b c. P a \<and> Q a b \<longrightarrow> \<not> R b c"
    for P :: "nat \<Rightarrow> bool" and Q :: "nat \<Rightarrow> nat \<Rightarrow> bool" and R :: "nat \<Rightarrow> nat \<Rightarrow> bool"
    using that by blast
  note w3 = none [OF iffD1 [OF conjunct1 [OF conjunct2 [OF t3]] e3]]
  show ?thesis
    by (rule conjI [OF w1 conjI [OF w2 conjI [OF e3 w3]]])
qed

text \<open>C1 as stated fails at its example: the first \<open>{\<close> at or after the key \<open>"items"\<close> is the
  one that opens the value of \<open>items\<close>, so the block returned is \<open>{"a":{"b":1}}\<close> and not the
  enclosing object.\<close>

theorem extractJsonAroundKey_example_inner_block:
  \<open>extractJsonAroundKey ''prefix {"items":{"a":{"b":1}}} suffix'' ''"items"''
     = Some ''{"a":{"b":1}}''
   \<and> extractJsonAroundKey ''prefix {"items":{"a":{"b":1}}} suffix'' ''"items"''
     \<noteq> Some ''{"items":{"a":{"b":1}}}''\<close>
  by code_simp

text \<open>
  C2.  The parser does throw on a message: when the items of the embedded object are an
  array that holds an object with a property \<open>toString\<close>, the conversion \<open>String(s || '')\<close> of
  line 202, which no \<open>try\<close> encloses, raises a \<open>TypeError\<close>, and \<open>parseEquipmentAlert\<close> returns
  no result.  The same holds for \<open>String(needsObj.others)\<close> of line 212.
\<close>

theorem parseEquipmentAlert_throws_on_object_item:
  \<open>parseEquipmentAlert
      (Alert ''a1'' ''Equipment update'' ''"items" {"items":[{"toString":1}]}'' [] None None False 0)
     = Inl TypeError
   \<and> parseEquipmentAlert
      (Alert ''a2'' ''Equipment update'' ''"items" {"items":[],"others":{"toString":1}}'' [] None None
         False 0)
     = Inl TypeError\<close>
  by code_simp

text \<open>
  C4, as amended.  The top-level pass takes the matches of the lazy pattern
  \<open>(\{[\s\S]*?\})\<close>, from left to right and without overlap: each block runs from a \<open>{\<close> to the
  first \<open>}\<close> after it, with no count of the depth, so that it holds no \<open>}\<close> but its last
  character.  \<open>JSON.parse\<close> is tried on the blocks in order, a block that does not parse is
  passed over, and the first block that parses is kept; the value is then an object.
  Whether or not a block parses, every block is removed from the text.
\<close>

theorem top_level_blocks_are_lazy:
  "jsonBlocksOf raw = lazyBlocks raw
   \<and> (\<forall>b\<in>set (jsonBlocksOf raw). \<exists>body. b = CHR ''{'' # body @ ''}'' \<and> CHR ''}'' \<notin> set body)
   \<and> (firstParsed (jsonBlocksOf raw) = Inr (Some v) \<longleftrightarrow>
        (\<exists>pre b post. jsonBlocksOf raw = pre @ b # post \<and> JSON_parse b = Parsed v
           \<and> (\<forall>x\<in>set pre. JSON_parse x = SyntaxError)))
   \<and> (firstParsed (jsonBlocksOf raw) = Inr (Some v) \<longrightarrow>
        (\<exists>kvs. v = JObj kvs)
        \<and> parseAnyBlocks raw needs = Inr (Some v, removeBlocks (jsonBlocksOf raw) raw))
   \<and> ((\<forall>b\<in>set (jsonBlocksOf raw). JSON_parse b = SyntaxError) \<longrightarrow>
        parseAnyBlocks raw needs = Inr (needs, removeBlocks (jsonBlocksOf raw) raw))"
proof -
  have obj: "isObject w \<and> truthy w" if "b \<in> set (jsonBlocksOf raw)" "JSON_parse b = Parsed w" for b w
  proof -
    from that obtain kvs where "w = JObj kvs"
      using lazyBlocks_parse_object [of b raw w] by (auto simp: jsonBlocksOf_lazyBlocks)
    then show ?thesis by (simp add: isObject_def truthy_def)
  qed
  have iff: "firstParsed (jsonBlocksOf raw) = Inr (Some v) \<longleftrightarrow>
        (\<exists>pre b post. jsonBlocksOf raw = pre @ b # post \<and> JSON_parse b = Parsed v
           \<and> (\<forall>x\<in>set pre. JSON_parse x = SyntaxError))"
    by (rule firstParsed_Some_iff) (rule obj)
  have kept: "(\<exists>kvs. v = JObj kvs)
        \<and> parseAnyBlocks raw needs = Inr (Some v, removeBlocks (jsonBlocksOf raw) raw)"
    if f: "firstParsed (jsonBlocksOf raw) = Inr (Some v)"
  proof -
    from iffD1 [OF iff f] obtain pre b post where
      d: "jsonBlocksOf raw = pre @ b # post" "JSON_parse b = Parsed v"
      by blast
    have "b \<in> set (jsonBlocksOf raw)" unfolding d(1) by simp
    with d(2) have "b \<in> set (jsonBlocksOf raw)" "JSON_parse b = Parsed v"
      by simp_all
    then have "\<exists>kvs. v = JObj kvs"
      using lazyBlocks_parse_object [of b raw v] by (simp add: jsonBlocksOf_lazyBlocks)
    then show ?thesis using f by (simp add: parseAnyBlocks_def)
  qed
  have none: "parseAnyBlocks raw needs = Inr (needs, removeBlocks (jsonBlocksOf raw) raw)"
    if "\<forall>b\<in>set (jsonBlocksOf raw). JSON_parse b = SyntaxError"
  proof -
    have "firstParsed (jsonBlocksOf raw) = Inr None"
      using that by (intro firstParsed_all_fail) simp
    then show ?thesis by (simp add: parseAnyBlocks_def)
  qed
  have shape: "\<forall>b\<in>set (jsonBlocksOf raw). \<exists>body. b = CHR ''{'' # body @ ''}'' \<and> CHR ''}'' \<notin> set body"
    unfolding jsonBlocksOf_lazyBlocks using lazyBlocks_shape by blast
  show ?thesis
    using jsonBlocksOf_lazyBlocks [of raw] shape iff kept none by blast
qed

text \<open>The theorem at a text with two blocks, of which the first, cut from a nested object,
  does not parse and the second is kept.\<close>

theorem top_level_blocks_are_lazy_witness:
  \<open>jsonBlocksOf ''a {"x":{"y":1}} b {"items":["hdmi"]} c''
      = [''{"x":{"y":1}'', ''{"items":["hdmi"]}'']
   \<and> lazyBlocks ''a {"x":{"y":1}} b {"items":["hdmi"]} c''
      = [''{"x":{"y":1}'', ''{"items":["hdmi"]}'']
   \<and> JSON_parse ''{"x":{"y":1}'' = SyntaxError
   \<and> firstParsed (jsonBlocksOf ''a {"x":{"y":1}} b {"items":["hdmi"]} c'')
      = Inr (Some (JObj [(''items'', JArr [JStr ''hdmi''])]))
   \<and> (\<exists>pre b post. jsonBlocksOf ''a {"x":{"y":1}} b {"items":["hdmi"]} c'' = pre @ b # post
         \<and> JSON_parse b = Parsed (JObj [(''items'', JArr [JStr ''hdmi''])])
         \<and> (\<forall>x\<in>set pre. JSON_parse x = SyntaxError))
   \<and> parseAnyBlocks ''a {"x":{"y":1}} b {"items":["hdmi"]} c'' None
      = Inr (Some (JObj [(''items'', JArr [JStr ''hdmi''])]), ''a } b  c'')\<close>
proof -
  note t = top_level_blocks_are_lazy
    [of \<open>''a {"x":{"y":1}} b {"items":["hdmi"]} c''\<close> \<open>JObj [(''items'', JArr [JStr ''hdmi''])]\<close> None]
  have e1: \<open>jsonBlocksOf ''a {"x":{"y":1}} b {"items":["hdmi"]} c''
      = [''{"x":{"y":1}'', ''{"items":["hdmi"]}'']\<close>
    by code_simp
  have e2: \<open>lazyBlocks ''a {"x":{"y":1}} b {"items":["hdmi"]} c''
      = [''{"x":{"y":1}'', ''{"items":["hdmi"]}'']\<close>
    using conjunct1 [OF t] e1 by (simp only:)
  have e3: \<open>JSON_parse ''{"x":{"y":1}'' = SyntaxError\<close>
    by code_simp
  have e4: \<open>firstParsed (jsonBlocksOf ''a {"x":{"y":1}} b {"items":["hdmi"]} c'')
      = Inr (Some (JObj [(''items'', JArr [JStr ''hdmi''])]))\<close>
    by code_simp
  note e5 = iffD1 [OF conjunct1 [OF conjunct2 [OF conjunct2 [OF t]]] e4]
  have e6: \<open>parseAnyBlocks ''a {"x":{"y":1}} b {"items":["hdmi"]} c'' None
      = Inr (Some (JObj [(''items'', JArr [JStr ''hdmi''])]), ''a } b  c'')\<close>
    by code_simp
  show ?thesis
    by (rule conjI [OF e1 conjI [OF e2 conjI [OF e3 conjI [OF e4 conjI [OF e5 e6]]]]])
qed

text \<open>C4 as stated fails: the nested object \<open>{"a":{"b":1}}\<close>, which \<open>JSON.parse\<close> accepts, is
  not captured as a whole; the one block of the pass ends at the first \<open>}\<close>, does not parse,
  and the parser finds no needs object.\<close>

theorem nested_block_is_cut:
  \<open>jsonBlocksOf ''{"a":{"b":1}}'' = [''{"a":{"b":1}'']
   \<and> JSON_parse ''{"a":{"b":1}}'' = Parsed (JObj [(''a'', JObj [(''b'', JNum True ''1'')])])
   \<and> JSON_parse ''{"a":{"b":1}'' = SyntaxError
   \<and> parseAnyBlocks ''{"a":{"b":1}}'' None = Inr (None, ''}'')
   \<and> parseEquipmentAlert (Alert [] [] ''{"a":{"b":1}}'' [] None None False 0)
      = Inr (ParsedAlert None [] None None None)\<close>
  by code_simp





text \<open>
  C8, as amended.  For an admin viewer the reconciler returns the admin feed as it is:
  unfiltered, not deduplicated and not sorted (line 629 returns before the loop of lines
  652-670).
\<close>

theorem admin_feed_returned_as_is:
  "alertsData (Some (User i e ''admin'')) adminAlerts userAlerts ownerAdminAlerts = Inr adminAlerts"
  by (simp add: alertsData_def isAdmin_def)


text \<open>C8 as stated fails: two admin alerts with the same title and first message line
  are both returned, where the deduplication would keep the later one only.\<close>

theorem admin_feed_not_deduplicated:
  "alertsData (Some (User ''u0'' ''admin@x.org'' ''admin''))
     [Alert ''1'' ''Equipment'' ''hdmi'' [] None None False 1,
      Alert ''2'' ''Equipment'' ''hdmi'' [] None None False 2] [] []
   = Inr [Alert ''1'' ''Equipment'' ''hdmi'' [] None None False 1,
          Alert ''2'' ''Equipment'' ''hdmi'' [] None None False 2]
   \<and> sortNewestFirst (dedupe [Alert ''1'' ''Equipment'' ''hdmi'' [] None None False 1,
                               Alert ''2'' ''Equipment'' ''hdmi'' [] None None False 2])
       = [Alert ''2'' ''Equipment'' ''hdmi'' [] None None False 2]"
  by code_simp

text \<open>
  C9.  The sanitizer can return an e-mail address: in \<open>"alice"@example.com\<close> the pattern of
  line 394 finds no address, because a quote precedes the \<open>@\<close>, and the removal of quotes
  in line 409 then forms \<open>alice@example.com\<close>, which the pattern matches in full.
\<close>

theorem sanitizeDisplayText_leaks_email:
  \<open>sanitizeDisplayText ''"alice"@example.com'' = ''alice@example.com''
   \<and> map fst (matchGlobal emailRe (sanitizeDisplayText ''"alice"@example.com''))
       = [''alice@example.com'']\<close>
  by code_simp






end
